theory Spec2Isabelle
  imports Main "HOL-Library.Word"
begin

unbundle bit_operations_syntax

section \<open>Bounded output buffers\<close>

text \<open>
  The functions of \<^verbatim>\<open>src/ssl_utils.c\<close> write into a caller-owned \<^verbatim>\<open>struct buffer\<close>.
  Bytes are 8-bit words, C \<^verbatim>\<open>size_t\<close> and \<^verbatim>\<open>unsigned long\<close> are 64-bit words (LP64),
  \<^verbatim>\<open>unsigned int\<close> is a 32-bit word; C \<^verbatim>\<open>int\<close> and \<^verbatim>\<open>long\<close> values are integers,
  and a conversion to an unsigned type is \<open>word_of_int\<close>.
\<close>

type_synonym byte = "8 word"
type_synonym size_t = "64 word"
type_synonym unsigned_int = "32 word"

text \<open>
  Modelled from the spec: \<^verbatim>\<open>struct buffer\<close> is declared in \<^verbatim>\<open>haproxy/buf-t.h\<close>, outside
  \<^verbatim>\<open>ssl_utils.c\<close>. The spec gives its fields: the byte region \<open>area\<close>, the capacity
  \<open>size\<close> and the current length \<open>data\<close>; the two counters are \<^verbatim>\<open>size_t\<close> in that header. The region is addressed by offset from the pointer \<open>area\<close>; only the offsets
  below \<open>size\<close> belong to the caller's buffer, and a write at a larger offset is a write
  past its end.
\<close>

record buffer =
  area :: "nat \<Rightarrow> byte"
  size :: size_t
  data :: size_t

text \<open>\<^verbatim>\<open>memcpy(area + off, src, n)\<close> with \<open>n\<close> the length of \<open>src\<close>.\<close>

definition memcpy :: "(nat \<Rightarrow> byte) \<Rightarrow> nat \<Rightarrow> byte list \<Rightarrow> (nat \<Rightarrow> byte)" where
  "memcpy a off src = (\<lambda>i. if off \<le> i \<and> i < off + length src then src ! (i - off) else a i)"

text \<open>What a caller reads back: the first \<open>data\<close> bytes of the region.\<close>

definition buf_bytes :: "buffer \<Rightarrow> byte list" where
  "buf_bytes b = map (area b) [0..<unat (data b)]"

text \<open>The bytes of an ASCII text.\<close>

definition bytes_of :: "string \<Rightarrow> byte list" where
  "bytes_of s = map of_char s"

section \<open>Certificate field extractors\<close>

text \<open>
  An \<^verbatim>\<open>ASN1_STRING\<close> (also \<^verbatim>\<open>ASN1_INTEGER\<close>, \<^verbatim>\<open>ASN1_TIME\<close>) carries a type tag and
  \<^verbatim>\<open>length\<close> bytes of \<^verbatim>\<open>data\<close>; its \<^verbatim>\<open>int length\<close> field is the length of the byte list.
\<close>

record asn1_string =
  asn1_type :: int
  asn1_data :: "byte list"

definition asn1_length :: "asn1_string \<Rightarrow> int" where
  "asn1_length s = int (length (asn1_data s))"

text \<open>The ASN.1 type tags come from the cryptography library's \<^verbatim>\<open>openssl/asn1.h\<close>.\<close>

definition V_ASN1_UTCTIME :: int where
  "V_ASN1_UTCTIME = 23"

definition V_ASN1_GENERALIZEDTIME :: int where
  "V_ASN1_GENERALIZEDTIME = 24"

text \<open>
  What the functions read from an \<^verbatim>\<open>X509\<close> handle through the library:
  \<^verbatim>\<open>X509_get_serialNumber\<close> (\<open>None\<close> is the null pointer), the length that
  \<^verbatim>\<open>i2d_X509(crt, NULL)\<close> reports and the bytes that \<^verbatim>\<open>i2d_X509(crt, &p)\<close> writes.
\<close>

record x509 =
  X509_get_serialNumber :: "asn1_string option"
  i2d_X509_len :: int
  i2d_X509_bytes :: "byte list"

subsection \<open>\<^verbatim>\<open>ssl_sock_get_serial\<close>\<close>

definition ssl_sock_get_serial :: "x509 \<Rightarrow> buffer \<Rightarrow> int \<times> buffer" where
  "ssl_sock_get_serial crt out =
     (case X509_get_serialNumber crt of
        None \<Rightarrow> (0, out)
      | Some serial \<Rightarrow>
          if size out < word_of_int (asn1_length serial) then (-1, out)
          else (1, out\<lparr>area := memcpy (area out) 0 (asn1_data serial),
                       data := word_of_int (asn1_length serial)\<rparr>))"

subsection \<open>\<^verbatim>\<open>ssl_sock_crt2der\<close>\<close>

definition ssl_sock_crt2der :: "x509 \<Rightarrow> buffer \<Rightarrow> int \<times> buffer" where
  "ssl_sock_crt2der crt out =
     (let len = i2d_X509_len crt in
      if len \<le> 0 then (1, out)
      else if size out < word_of_int len then (-1, out)
      else (1, out\<lparr>area := memcpy (area out) 0 (i2d_X509_bytes crt), data := word_of_int len\<rparr>))"

subsection \<open>\<^verbatim>\<open>ssl_sock_get_time\<close>\<close>

definition ssl_sock_get_time :: "asn1_string \<Rightarrow> buffer \<Rightarrow> int \<times> buffer" where
  "ssl_sock_get_time tm out =
     (if asn1_type tm = V_ASN1_GENERALIZEDTIME then
        (if asn1_length tm < 12 then (0, out)
         else if asn1_data tm ! 0 \<noteq> 0x32 \<or> asn1_data tm ! 1 \<noteq> 0x30 then (0, out)
         else if size out < word_of_int (asn1_length tm - 2) then (-1, out)
         else (1, out\<lparr>area := memcpy (area out) 0
                                (take (nat (asn1_length tm - 2)) (drop 2 (asn1_data tm))),
                      data := word_of_int (asn1_length tm - 2)\<rparr>))
      else if asn1_type tm = V_ASN1_UTCTIME then
        (if asn1_length tm < 10 then (0, out)
         else if asn1_data tm ! 0 \<ge> 0x35 then (0, out)
         else if size out < word_of_int (asn1_length tm) then (-1, out)
         else (1, out\<lparr>area := memcpy (area out) 0 (asn1_data tm),
                      data := word_of_int (asn1_length tm)\<rparr>))
      else (0, out))"

section \<open>Distinguished names\<close>

text \<open>
  An \<^verbatim>\<open>X509_NAME\<close> is the sequence of its entries. Of an entry the functions read the
  numeric identifier of its object (\<^verbatim>\<open>OBJ_obj2nid\<close>), that identifier's short name
  (\<^verbatim>\<open>OBJ_nid2sn\<close>, \<open>None\<close> for the null pointer), the object rendered as text
  (\<^verbatim>\<open>i2t_ASN1_OBJECT\<close>, cut to the 128-byte array \<^verbatim>\<open>tmp\<close>) and the value bytes.
\<close>

record x509_name_entry =
  OBJ_obj2nid :: int
  OBJ_nid2sn :: "string option"
  i2t_ASN1_OBJECT :: string
  entry_data :: "byte list"

type_synonym x509_name = "x509_name_entry list"

definition NID_undef :: int where
  "NID_undef = 0"

text \<open>The name \<^verbatim>\<open>s\<close> both formatters compute for an entry.\<close>

definition entry_name :: "x509_name_entry \<Rightarrow> string" where
  "entry_name ne =
     (if OBJ_obj2nid ne = NID_undef then take 127 (i2t_ASN1_OBJECT ne)
      else case OBJ_nid2sn ne of None \<Rightarrow> take 127 (i2t_ASN1_OBJECT ne) | Some s \<Rightarrow> s)"

text \<open>
  Modelled from the spec: \<^verbatim>\<open>chunk_strcasecmp\<close> is declared in \<^verbatim>\<open>haproxy/chunk.h\<close>,
  outside \<^verbatim>\<open>ssl_utils.c\<close>. The spec says that the attribute name is matched
  case-insensitively; the result is 0 exactly for a match, and the code only tests it
  against 0.
\<close>

definition ascii_upper :: "char \<Rightarrow> nat" where
  "ascii_upper c =
     (if (97::nat) \<le> of_char c \<and> of_char c \<le> (122::nat) then of_char c - 32 else of_char c)"

definition chunk_strcasecmp :: "string \<Rightarrow> string \<Rightarrow> int" where
  "chunk_strcasecmp chk str = (if map ascii_upper chk = map ascii_upper str then 0 else 1)"

subsection \<open>\<^verbatim>\<open>ssl_sock_get_dn_entry\<close>\<close>

text \<open>The \<^verbatim>\<open>for\<close> loop, from index \<open>i\<close> with the match counter \<open>cur\<close>.\<close>

function ssl_sock_get_dn_entry_loop ::
  "x509_name \<Rightarrow> string \<Rightarrow> int \<Rightarrow> nat \<Rightarrow> int \<Rightarrow> buffer \<Rightarrow> int \<times> buffer" where
  "ssl_sock_get_dn_entry_loop a entry pos i cur out =
     (if i < length a then
        (let j = (if pos < 0 then (length a - 1) - i else i);
             ne = a ! j;
             s = entry_name ne
         in if chunk_strcasecmp entry s \<noteq> 0
            then ssl_sock_get_dn_entry_loop a entry pos (i + 1) cur out
            else
              (let cur' = (if pos < 0 then cur - 1 else cur + 1)
               in if cur' \<noteq> pos
                  then ssl_sock_get_dn_entry_loop a entry pos (i + 1) cur' out
                  else if word_of_nat (length (entry_data ne)) > size out then (-1, out)
                  else (1, out\<lparr>area := memcpy (area out) 0 (entry_data ne),
                               data := word_of_nat (length (entry_data ne))\<rparr>)))
      else (0, out))"
  by pat_completeness auto
termination
  by (relation "measure (\<lambda>(a, entry, pos, i, cur, out). length a - i)") auto

definition ssl_sock_get_dn_entry :: "x509_name \<Rightarrow> string \<Rightarrow> int \<Rightarrow> buffer \<Rightarrow> int \<times> buffer" where
  "ssl_sock_get_dn_entry a entry pos out =
     ssl_sock_get_dn_entry_loop a entry pos 0 0 (out\<lparr>data := 0\<rparr>)"

text \<open>An entry matches the requested attribute name.\<close>

definition entry_matches :: "string \<Rightarrow> x509_name_entry \<Rightarrow> bool" where
  "entry_matches entry ne = (chunk_strcasecmp entry (entry_name ne) = 0)"

text \<open>The last three lines of the loop body, once the entry is selected.\<close>

definition dn_entry_copy :: "x509_name_entry \<Rightarrow> buffer \<Rightarrow> int \<times> buffer" where
  "dn_entry_copy ne out =
     (if word_of_nat (length (entry_data ne)) > size out then (-1, out)
      else (1, out\<lparr>area := memcpy (area out) 0 (entry_data ne),
                   data := word_of_nat (length (entry_data ne))\<rparr>))"

subsection \<open>\<^verbatim>\<open>ssl_sock_get_dn_oneline\<close>\<close>

text \<open>
  The loop from index \<open>i\<close> with the running length \<open>l\<close>; the write pointer \<^verbatim>\<open>p\<close> is
  \<^verbatim>\<open>out->area\<close> plus the previous value of \<open>l\<close>.
\<close>

function ssl_sock_get_dn_oneline_loop :: "x509_name \<Rightarrow> nat \<Rightarrow> int \<Rightarrow> buffer \<Rightarrow> int \<times> buffer" where
  "ssl_sock_get_dn_oneline_loop a i l out =
     (if i < length a then
        (let ne = a ! i;
             s = entry_name ne;
             ln = int (length s);
             data_len = int (length (entry_data ne));
             l' = l + (1 + ln + 1 + data_len)
         in if word_of_int l' > size out then (-1, out)
            else ssl_sock_get_dn_oneline_loop a (i + 1) l'
                   (out\<lparr>data := word_of_int l',
                        area := memcpy (area out) (nat l)
                                  ([0x2F] @ bytes_of s @ [0x3D] @ entry_data ne)\<rparr>))
      else (if data out = 0 then 0 else 1, out))"
  by pat_completeness auto
termination
  by (relation "measure (\<lambda>(a, i, l, out). length a - i)") auto

definition ssl_sock_get_dn_oneline :: "x509_name \<Rightarrow> buffer \<Rightarrow> int \<times> buffer" where
  "ssl_sock_get_dn_oneline a out = ssl_sock_get_dn_oneline_loop a 0 0 (out\<lparr>data := 0\<rparr>)"

text \<open>
  The rendering the specification describes: every attribute as \<^verbatim>\<open>/<name>=<value>\<close>, in
  the order of the entries.
\<close>

definition oneline_entry :: "x509_name_entry \<Rightarrow> byte list" where
  "oneline_entry ne = [0x2F] @ bytes_of (entry_name ne) @ [0x3D] @ entry_data ne"

definition oneline :: "x509_name \<Rightarrow> byte list" where
  "oneline a = concat (map oneline_entry a)"

section \<open>The root of the verified chain\<close>

text \<open>
  \<^verbatim>\<open>SSL_get0_verified_chain\<close> yields the stack of verified certificates, or the null
  pointer (\<open>None\<close>). \<^verbatim>\<open>X509_check_issued\<close> belongs to the cryptography library and is a
  parameter; \<^verbatim>\<open>X509_V_OK\<close> is 0 there.
\<close>

record ssl =
  SSL_get0_verified_chain :: "x509 list option"

definition X509_V_OK :: int where
  "X509_V_OK = 0"

text \<open>The \<^verbatim>\<open>for\<close> loop over the rest of the stack; \<open>crt\<close> is the last certificate read.\<close>

fun verified_chain_root_loop :: "(x509 \<Rightarrow> x509 \<Rightarrow> int) \<Rightarrow> x509 list \<Rightarrow> x509 option \<Rightarrow> x509 option" where
  "verified_chain_root_loop X509_check_issued [] crt = crt"
| "verified_chain_root_loop X509_check_issued (c # rest) crt =
     (if X509_check_issued c c = X509_V_OK then Some c
      else verified_chain_root_loop X509_check_issued rest (Some c))"

definition ssl_sock_get_verified_chain_root :: "(x509 \<Rightarrow> x509 \<Rightarrow> int) \<Rightarrow> ssl \<Rightarrow> x509 option" where
  "ssl_sock_get_verified_chain_root X509_check_issued s =
     (case SSL_get0_verified_chain s of
        None \<Rightarrow> None
      | Some chain \<Rightarrow> verified_chain_root_loop X509_check_issued chain None)"

section \<open>The version parser\<close>

text \<open>
  A C string is the list of its characters before the terminating NUL; \<^verbatim>\<open>*p\<close> at the end
  of the list is that NUL.
\<close>

definition deref :: "string \<Rightarrow> char" where
  "deref p = (case p of [] \<Rightarrow> CHR 0x00 | c # _ \<Rightarrow> c)"

text \<open>
  \<^verbatim>\<open>strtol(p, &end, 10)\<close> of the C library: white space is skipped, a sign is optional,
  the digits that follow are read, and the value is clamped to the range of \<^verbatim>\<open>long\<close>.
  The result is the value and the rest of the string \<^verbatim>\<open>end\<close>; without a digit the value
  is 0 and \<^verbatim>\<open>end\<close> is \<^verbatim>\<open>p\<close>.
\<close>

definition isspace :: "char \<Rightarrow> bool" where
  "isspace c = (c \<in> set [CHR '' '', CHR 0x09, CHR 0x0A, CHR 0x0B, CHR 0x0C, CHR 0x0D])"

definition isdigit :: "char \<Rightarrow> bool" where
  "isdigit c = ((48::nat) \<le> of_char c \<and> of_char c \<le> (57::nat))"

definition digit_val :: "char \<Rightarrow> int" where
  "digit_val c = int (of_char c) - 48"

fun strtol_digits :: "int \<Rightarrow> string \<Rightarrow> int \<times> string" where
  "strtol_digits acc [] = (acc, [])"
| "strtol_digits acc (c # cs) =
     (if isdigit c then strtol_digits (acc * 10 + digit_val c) cs else (acc, c # cs))"

definition LONG_MAX :: int where
  "LONG_MAX = 2 ^ 63 - 1"

definition LONG_MIN :: int where
  "LONG_MIN = - (2 ^ 63)"

definition strtol :: "string \<Rightarrow> int \<times> string" where
  "strtol p =
     (let s = dropWhile isspace p;
          neg = (deref s = CHR ''-'');
          s' = (if deref s = CHR ''-'' \<or> deref s = CHR ''+'' then tl s else s)
      in if isdigit (deref s')
         then (case strtol_digits 0 s' of
                 (v, end) \<Rightarrow> (max LONG_MIN (min LONG_MAX (if neg then - v else v)), end))
         else (0, p))"

text \<open>
  The loop of the patch branch: \<^verbatim>\<open>patch += (*p & ~0x20) - 'A'\<close> for every character,
  in \<^verbatim>\<open>unsigned int\<close> arithmetic; the character is a (signed) \<^verbatim>\<open>char\<close> promoted to \<^verbatim>\<open>int\<close>.
\<close>

fun patch_letters :: "unsigned_int \<Rightarrow> string \<Rightarrow> unsigned_int" where
  "patch_letters patch [] = patch"
| "patch_letters patch (c # cs) =
     patch_letters (patch + (((scast (of_char c :: byte)) AND NOT 0x20) - 0x41)) cs"

definition numversion :: "unsigned_int \<Rightarrow> unsigned_int \<Rightarrow> unsigned_int \<Rightarrow> unsigned_int \<Rightarrow> unsigned_int \<Rightarrow> unsigned_int" where
  "numversion major minor fix patch status =
     push_bit 28 (major AND 0xf) OR push_bit 20 (minor AND 0xff) OR push_bit 12 (fix AND 0xff)
       OR push_bit 4 (patch AND 0xff) OR (status AND 0xf)"

text \<open>The argument is \<open>None\<close> for the null pointer; the result 0 is the failure value.\<close>

definition openssl_version_parser :: "string option \<Rightarrow> unsigned_int" where
  "openssl_version_parser version =
     (case version of
        None \<Rightarrow> 0
      | Some p \<Rightarrow>
          if p = [] then 0
          else
            (case strtol p of (major_l, end1) \<Rightarrow>
               let major = (word_of_int major_l :: unsigned_int) in
               if deref end1 \<noteq> CHR ''.'' \<or> major > 0xf then 0
               else
                 (case strtol (tl end1) of (minor_l, end2) \<Rightarrow>
                    let minor = (word_of_int minor_l :: unsigned_int) in
                    if deref end2 \<noteq> CHR ''.'' \<or> minor > 0xff then 0
                    else
                      (case strtol (tl end2) of (fix_l, end3) \<Rightarrow>
                         let fix = (word_of_int fix_l :: unsigned_int) in
                         if fix > 0xff then 0
                         else if end3 = [] then numversion major minor fix 0 0xf
                         else if deref end3 = CHR ''-'' then
                           (if take 4 (tl end3) = ''beta'' then
                              (case strtol (drop 4 (tl end3)) of (status_l, end4) \<Rightarrow>
                                 let status = (word_of_int status_l :: unsigned_int) in
                                 if status > 14 then 0
                                 else numversion major minor fix 0 status)
                            else numversion major minor fix 0 0)
                         else numversion major minor fix (patch_letters 1 end3) 0xf))))"

text \<open>The fields of the packed value \<^verbatim>\<open>MNNFFPPS\<close>.\<close>

definition patch_field :: "unsigned_int \<Rightarrow> unsigned_int" where
  "patch_field v = drop_bit 4 v AND 0xff"

definition status_nibble :: "unsigned_int \<Rightarrow> unsigned_int" where
  "status_nibble v = v AND 0xf"

section \<open>The GREASE filter\<close>

text \<open>
  \<^verbatim>\<open>exclude_tls_grease(input, len, output)\<close>: \<open>input\<close> is the list of the \<^verbatim>\<open>len\<close> input
  bytes. The \<^verbatim>\<open>while\<close> loop from index \<open>ptr\<close>; it returns the index at which it stops.
  The test \<^verbatim>\<open>output->data <= output->size - 2\<close> is a comparison of \<^verbatim>\<open>size_t\<close> values.
\<close>

function exclude_tls_grease_loop :: "byte list \<Rightarrow> nat \<Rightarrow> buffer \<Rightarrow> nat \<times> buffer" where
  "exclude_tls_grease_loop input ptr output =
     (if int ptr < int (length input) - 1 then
        (if input ! ptr \<noteq> input ! (ptr + 1) \<or> (input ! ptr) AND 0x0f \<noteq> 0x0a then
           (if data output \<le> size output - 2 then
              exclude_tls_grease_loop input (ptr + 2)
                (output\<lparr>area := memcpy (area output) (unat (data output))
                                  [input ! ptr, input ! (ptr + 1)],
                        data := data output + 2\<rparr>)
            else (ptr, output))
         else exclude_tls_grease_loop input (ptr + 2) output)
      else (ptr, output))"
  by pat_completeness auto
termination
  by (relation "measure (\<lambda>(input, ptr, output). length input - ptr)") auto

definition exclude_tls_grease :: "byte list \<Rightarrow> buffer \<Rightarrow> buffer" where
  "exclude_tls_grease input output =
     (case exclude_tls_grease_loop input 0 output of
        (ptr, out) \<Rightarrow>
          if size out - data out > 0 \<and> int (length input) - int ptr > 0
          then out\<lparr>area := (area out)(unat (data out) := input ! ptr), data := data out + 1\<rparr>
          else out)"

text \<open>
  The filter as the specification words it: a pair of equal bytes whose low nibble is
  \<open>0xA\<close> is dropped, every other pair is kept, and an unpaired last byte is kept.
\<close>

fun drop_grease_pairs :: "byte list \<Rightarrow> byte list" where
  "drop_grease_pairs (a # b # rest) =
     (if a = b \<and> a AND 0x0f = 0x0a then drop_grease_pairs rest
      else a # b # drop_grease_pairs rest)"
| "drop_grease_pairs [a] = [a]"
| "drop_grease_pairs [] = []"

section \<open>The verification error code table\<close>

text \<open>
  An element of the array \<^verbatim>\<open>x509_v_codes\<close>; the fields \<^verbatim>\<open>code\<close>, \<^verbatim>\<open>value\<close> and \<^verbatim>\<open>string\<close>.
\<close>

record x509_v_code =
  v_code :: int
  v_value :: string
  v_string :: string

text \<open>The macro names listed in the initializer of the array, in its order.\<close>

definition x509_v_names :: "string list" where
  "x509_v_names =
     [''X509_V_OK'',
      ''X509_V_ERR_UNSPECIFIED'',
      ''X509_V_ERR_UNABLE_TO_GET_ISSUER_CERT'',
      ''X509_V_ERR_UNABLE_TO_GET_CRL'',
      ''X509_V_ERR_UNABLE_TO_DECRYPT_CERT_SIGNATURE'',
      ''X509_V_ERR_UNABLE_TO_DECRYPT_CRL_SIGNATURE'',
      ''X509_V_ERR_UNABLE_TO_DECODE_ISSUER_PUBLIC_KEY'',
      ''X509_V_ERR_CERT_SIGNATURE_FAILURE'',
      ''X509_V_ERR_CRL_SIGNATURE_FAILURE'',
      ''X509_V_ERR_CERT_NOT_YET_VALID'',
      ''X509_V_ERR_CERT_HAS_EXPIRED'',
      ''X509_V_ERR_CRL_NOT_YET_VALID'',
      ''X509_V_ERR_CRL_HAS_EXPIRED'',
      ''X509_V_ERR_ERROR_IN_CERT_NOT_BEFORE_FIELD'',
      ''X509_V_ERR_ERROR_IN_CERT_NOT_AFTER_FIELD'',
      ''X509_V_ERR_ERROR_IN_CRL_LAST_UPDATE_FIELD'',
      ''X509_V_ERR_ERROR_IN_CRL_NEXT_UPDATE_FIELD'',
      ''X509_V_ERR_OUT_OF_MEM'',
      ''X509_V_ERR_DEPTH_ZERO_SELF_SIGNED_CERT'',
      ''X509_V_ERR_SELF_SIGNED_CERT_IN_CHAIN'',
      ''X509_V_ERR_UNABLE_TO_GET_ISSUER_CERT_LOCALLY'',
      ''X509_V_ERR_UNABLE_TO_VERIFY_LEAF_SIGNATURE'',
      ''X509_V_ERR_CERT_CHAIN_TOO_LONG'',
      ''X509_V_ERR_CERT_REVOKED'',
      ''X509_V_ERR_NO_ISSUER_PUBLIC_KEY'',
      ''X509_V_ERR_PATH_LENGTH_EXCEEDED'',
      ''X509_V_ERR_INVALID_PURPOSE'',
      ''X509_V_ERR_CERT_UNTRUSTED'',
      ''X509_V_ERR_CERT_REJECTED'',
      ''X509_V_ERR_SUBJECT_ISSUER_MISMATCH'',
      ''X509_V_ERR_AKID_SKID_MISMATCH'',
      ''X509_V_ERR_AKID_ISSUER_SERIAL_MISMATCH'',
      ''X509_V_ERR_KEYUSAGE_NO_CERTSIGN'',
      ''X509_V_ERR_UNABLE_TO_GET_CRL_ISSUER'',
      ''X509_V_ERR_UNHANDLED_CRITICAL_EXTENSION'',
      ''X509_V_ERR_KEYUSAGE_NO_CRL_SIGN'',
      ''X509_V_ERR_UNHANDLED_CRITICAL_CRL_EXTENSION'',
      ''X509_V_ERR_INVALID_NON_CA'',
      ''X509_V_ERR_PROXY_PATH_LENGTH_EXCEEDED'',
      ''X509_V_ERR_KEYUSAGE_NO_DIGITAL_SIGNATURE'',
      ''X509_V_ERR_PROXY_CERTIFICATES_NOT_ALLOWED'',
      ''X509_V_ERR_INVALID_EXTENSION'',
      ''X509_V_ERR_INVALID_POLICY_EXTENSION'',
      ''X509_V_ERR_NO_EXPLICIT_POLICY'',
      ''X509_V_ERR_DIFFERENT_CRL_SCOPE'',
      ''X509_V_ERR_UNSUPPORTED_EXTENSION_FEATURE'',
      ''X509_V_ERR_UNNESTED_RESOURCE'',
      ''X509_V_ERR_PERMITTED_VIOLATION'',
      ''X509_V_ERR_EXCLUDED_VIOLATION'',
      ''X509_V_ERR_SUBTREE_MINMAX'',
      ''X509_V_ERR_APPLICATION_VERIFICATION'',
      ''X509_V_ERR_UNSUPPORTED_CONSTRAINT_TYPE'',
      ''X509_V_ERR_UNSUPPORTED_CONSTRAINT_SYNTAX'',
      ''X509_V_ERR_UNSUPPORTED_NAME_SYNTAX'',
      ''X509_V_ERR_CRL_PATH_VALIDATION_ERROR'',
      ''X509_V_ERR_PATH_LOOP'',
      ''X509_V_ERR_SUITE_B_INVALID_VERSION'',
      ''X509_V_ERR_SUITE_B_INVALID_ALGORITHM'',
      ''X509_V_ERR_SUITE_B_INVALID_CURVE'',
      ''X509_V_ERR_SUITE_B_INVALID_SIGNATURE_ALGORITHM'',
      ''X509_V_ERR_SUITE_B_LOS_NOT_ALLOWED'',
      ''X509_V_ERR_SUITE_B_CANNOT_SIGN_P_384_WITH_P_256'',
      ''X509_V_ERR_HOSTNAME_MISMATCH'',
      ''X509_V_ERR_EMAIL_MISMATCH'',
      ''X509_V_ERR_IP_ADDRESS_MISMATCH'',
      ''X509_V_ERR_DANE_NO_MATCH'',
      ''X509_V_ERR_EE_KEY_TOO_SMALL'',
      ''X509_V_ERR_CA_KEY_TOO_SMALL'',
      ''X509_V_ERR_CA_MD_TOO_WEAK'',
      ''X509_V_ERR_INVALID_CALL'',
      ''X509_V_ERR_STORE_LOOKUP'',
      ''X509_V_ERR_NO_VALID_SCTS'',
      ''X509_V_ERR_PROXY_SUBJECT_NAME_VIOLATION'',
      ''X509_V_ERR_OCSP_VERIFY_NEEDED'',
      ''X509_V_ERR_OCSP_VERIFY_FAILED'',
      ''X509_V_ERR_OCSP_CERT_UNKNOWN'',
      ''X509_V_ERR_UNSUPPORTED_SIGNATURE_ALGORITHM'',
      ''X509_V_ERR_SIGNATURE_ALGORITHM_MISMATCH'',
      ''X509_V_ERR_SIGNATURE_ALGORITHM_INCONSISTENCY'',
      ''X509_V_ERR_INVALID_CA'',
      ''X509_V_ERR_PATHLEN_INVALID_FOR_NON_CA'',
      ''X509_V_ERR_PATHLEN_WITHOUT_KU_KEY_CERT_SIGN'',
      ''X509_V_ERR_KU_KEY_CERT_SIGN_INVALID_FOR_NON_CA'',
      ''X509_V_ERR_ISSUER_NAME_EMPTY'',
      ''X509_V_ERR_SUBJECT_NAME_EMPTY'',
      ''X509_V_ERR_MISSING_AUTHORITY_KEY_IDENTIFIER'',
      ''X509_V_ERR_MISSING_SUBJECT_KEY_IDENTIFIER'',
      ''X509_V_ERR_EMPTY_SUBJECT_ALT_NAME'',
      ''X509_V_ERR_EMPTY_SUBJECT_SAN_NOT_CRITICAL'',
      ''X509_V_ERR_CA_BCONS_NOT_CRITICAL'',
      ''X509_V_ERR_AUTHORITY_KEY_IDENTIFIER_CRITICAL'',
      ''X509_V_ERR_SUBJECT_KEY_IDENTIFIER_CRITICAL'',
      ''X509_V_ERR_CA_CERT_MISSING_KEY_USAGE'',
      ''X509_V_ERR_EXTENSIONS_REQUIRE_VERSION_3'',
      ''X509_V_ERR_EC_KEY_EXPLICIT_PARAMS'']"

text \<open>
  The initializer \<^verbatim>\<open>V(x)\<close> sets \<^verbatim>\<open>code\<close> to -1, \<^verbatim>\<open>string\<close> to the macro's name, and
  \<^verbatim>\<open>value\<close> to the text the preprocessor makes of \<^verbatim>\<open>x\<close>, here \<open>Q x\<close>. The terminating
  element with the null \<^verbatim>\<open>string\<close> ends the list.
\<close>

definition x509_v_codes :: "(string \<Rightarrow> string) \<Rightarrow> x509_v_code list" where
  "x509_v_codes Q = map (\<lambda>x. \<lparr>v_code = -1, v_value = Q x, v_string = x\<rparr>) x509_v_names"

text \<open>
  Modelled from the spec: the macros \<^verbatim>\<open>X509_V_*\<close> are defined in the cryptography library's
  header \<^verbatim>\<open>openssl/x509_vfy.h\<close>, which is not part of the repository. The spec says that a
  constant the library build supports has a raw definition that is an integer literal,
  and that any other constant keeps its own name as raw definition. A header \<open>H\<close> gives
  the value of the literal for the macros it defines; \<open>header_text H x\<close> is the text the
  preprocessor makes of the macro \<open>x\<close>: the decimal literal, or the name itself.
\<close>

definition digit_char :: "nat \<Rightarrow> char" where
  "digit_char k = ''0123456789'' ! k"

fun decimal :: "nat \<Rightarrow> string" where
  "decimal n = (if n < 10 then [digit_char n] else decimal (n div 10) @ [digit_char (n mod 10)])"

definition header_text :: "(string \<Rightarrow> nat option) \<Rightarrow> string \<Rightarrow> string" where
  "header_text H x = (case H x of None \<Rightarrow> x | Some n \<Rightarrow> decimal n)"

text \<open>\<^verbatim>\<open>atoi\<close> is \<^verbatim>\<open>(int) strtol(s, NULL, 10)\<close>.\<close>

definition atoi :: "string \<Rightarrow> int" where
  "atoi s = sint (word_of_int (fst (strtol s)) :: unsigned_int)"

text \<open>\<^verbatim>\<open>init_x509_v_err_tab\<close> runs once at start-up and yields the table the lookups read.\<close>

fun init_x509_v_err_tab :: "x509_v_code list \<Rightarrow> x509_v_code list" where
  "init_x509_v_err_tab [] = []"
| "init_x509_v_err_tab (e # es) =
     (if v_string e = v_value e then e else e\<lparr>v_code := atoi (v_value e)\<rparr>)
       # init_x509_v_err_tab es"

fun x509_v_err_str_to_int :: "x509_v_code list \<Rightarrow> string \<Rightarrow> int" where
  "x509_v_err_str_to_int [] str = -1"
| "x509_v_err_str_to_int (e # es) str =
     (if str = v_string e then v_code e else x509_v_err_str_to_int es str)"

text \<open>The loop of \<^verbatim>\<open>x509_v_err_int_to_str\<close>; \<open>None\<close> is the null pointer.\<close>

fun x509_v_err_int_to_str_loop :: "x509_v_code list \<Rightarrow> int \<Rightarrow> string option" where
  "x509_v_err_int_to_str_loop [] code = None"
| "x509_v_err_int_to_str_loop (e # es) code =
     (if v_code e = code then Some (v_string e) else x509_v_err_int_to_str_loop es code)"

definition x509_v_err_int_to_str :: "x509_v_code list \<Rightarrow> int \<Rightarrow> string option" where
  "x509_v_err_int_to_str tab code =
     (if code = -1 then None else x509_v_err_int_to_str_loop tab code)"

section \<open>ASN.1 generalized time to epoch\<close>

text \<open>
  \<^verbatim>\<open>p\<close> is a \<^verbatim>\<open>char *\<close> into the value's bytes and is modelled by the list of the bytes
  from \<^verbatim>\<open>p\<close> to \<^verbatim>\<open>end\<close>, so \<^verbatim>\<open>end - p\<close> is its length. A byte read through \<^verbatim>\<open>p\<close> is a
  (signed) \<^verbatim>\<open>char\<close>, promoted to \<^verbatim>\<open>int\<close> in arithmetic: \<open>dgt c\<close> is \<^verbatim>\<open>c - '0'\<close>.
\<close>

definition dgt :: "byte \<Rightarrow> int" where
  "dgt c = sint c - 48"

definition month_offset :: "size_t list" where
  "month_offset = [0, 31, 59, 90, 120, 151, 181, 212, 243, 273, 304, 334]"

text \<open>
  The \<^verbatim>\<open>do ... while\<close> loop that skips the fraction of the seconds, entered with \<^verbatim>\<open>p\<close> at
  the dot; the argument is the list after the dot, \<open>None\<close> is \<^verbatim>\<open>return -1\<close>.
\<close>

fun skip_fraction :: "byte list \<Rightarrow> byte list option" where
  "skip_fraction [] = None"
| "skip_fraction (c # cs) =
     (if 48 \<le> sint c \<and> sint c \<le> 57 then skip_fraction cs else Some (c # cs))"

text \<open>The code from the label \<^verbatim>\<open>nosec\<close> on; \<open>p\<close> is not empty there.\<close>

definition epoch_timezone :: "int \<Rightarrow> byte list \<Rightarrow> int" where
  "epoch_timezone epoch p =
     (if p ! 0 = 0x5A then (if length p \<noteq> 1 then -1 else epoch)
      else if p ! 0 = 0x2B then
        (if length p \<noteq> 5 then -1
         else epoch - ((10 * dgt (p ! 1) + dgt (p ! 2)) * 60 * 60 + (10 * dgt (p ! 3) + dgt (p ! 4))) * 60)
      else if p ! 0 = 0x2D then
        (if length p \<noteq> 5 then -1
         else epoch + ((10 * dgt (p ! 1) + dgt (p ! 2)) * 60 * 60 + (10 * dgt (p ! 3) + dgt (p ! 4))) * 60)
      else -1)"

text \<open>
  \<^verbatim>\<open>year\<close> and \<^verbatim>\<open>month\<close> are \<^verbatim>\<open>unsigned long\<close>, so the number of days up to the current
  month is computed in 64-bit unsigned arithmetic and then read as a \<^verbatim>\<open>long\<close>.
\<close>

definition epoch_of_month :: "size_t \<Rightarrow> size_t \<Rightarrow> int" where
  "epoch_of_month year month =
     (let lt3 = (if month < 3 then 1 else 0 :: size_t)
      in sint ((((year - 1970) * 365)
                + ((year - lt3) div 4 - (year - lt3) div 100 + (year - lt3) div 400)
                - word_of_int ((1970 - 1) div 4 - (1970 - 1) div 100 + (1970 - 1) div 400)
                + month_offset ! unat (month - 1)) * 24 * 60 * 60))"

definition asn1_generalizedtime_to_epoch :: "asn1_string option \<Rightarrow> int" where
  "asn1_generalizedtime_to_epoch d =
     (case d of
        None \<Rightarrow> -1
      | Some d \<Rightarrow>
          if asn1_type d \<noteq> V_ASN1_GENERALIZEDTIME then -1
          else
            (let p = asn1_data d in
             if length p < 4 then -1
             else
               (let year = (word_of_int (1000 * dgt (p ! 0) + 100 * dgt (p ! 1)
                                          + 10 * dgt (p ! 2) + dgt (p ! 3)) :: size_t);
                    p = drop 4 p
                in if length p < 2 then -1
                   else
                     (let month = (word_of_int (10 * dgt (p ! 0) + dgt (p ! 1)) :: size_t)
                      in if month < 1 \<or> month > 12 then -1
                         else
                           (let epoch = epoch_of_month year month;
                                p = drop 2 p
                            in if length p < 2 then -1
                               else
                                 (let epoch = epoch + (10 * dgt (p ! 0) + dgt (p ! 1) - 1) * 24 * 60 * 60;
                                      p = drop 2 p
                                  in if length p < 2 then -1
                                     else
                                       (let epoch = epoch + (10 * dgt (p ! 0) + dgt (p ! 1)) * 60 * 60;
                                            p = drop 2 p
                                        in if length p < 2 then -1
                                           else
                                             (let epoch = epoch + (10 * dgt (p ! 0) + dgt (p ! 1)) * 60;
                                                  p = drop 2 p
                                              in if p = [] then -1
                                                 else if sint (p ! 0) < 48 \<or> sint (p ! 0) > 57
                                                 then epoch_timezone epoch p
                                                 else if length p < 2 then -1
                                                 else
                                                   (let epoch = epoch + (10 * dgt (p ! 0) + dgt (p ! 1));
                                                        p = drop 2 p
                                                    in if p = [] then -1
                                                       else if p ! 0 = 0x2E then
                                                         (case skip_fraction (tl p) of
                                                            None \<Rightarrow> -1
                                                          | Some p \<Rightarrow> epoch_timezone epoch p)
                                                       else epoch_timezone epoch p)))))))))"

section \<open>Example inputs\<close>

text \<open>An empty buffer of capacity \<open>n\<close> over a zeroed region.\<close>

definition empty_buffer :: "nat \<Rightarrow> buffer" where
  "empty_buffer n = \<lparr>area = (\<lambda>_. 0), size = word_of_nat n, data = 0\<rparr>"

text \<open>
  A certificate with the three-byte serial \<open>01 A0 FF\<close>, and one without a serial field;
  the encoder reports a failure for both.
\<close>

definition crt_serial :: x509 where
  "crt_serial =
     \<lparr>X509_get_serialNumber = Some \<lparr>asn1_type = 2, asn1_data = [0x01, 0xA0, 0xFF]\<rparr>,
      i2d_X509_len = -1, i2d_X509_bytes = []\<rparr>"

definition crt_no_serial :: x509 where
  "crt_no_serial = \<lparr>X509_get_serialNumber = None, i2d_X509_len = -1, i2d_X509_bytes = []\<rparr>"

definition gentime :: "string \<Rightarrow> asn1_string" where
  "gentime s = \<lparr>asn1_type = V_ASN1_GENERALIZEDTIME, asn1_data = bytes_of s\<rparr>"

definition utctime :: "string \<Rightarrow> asn1_string" where
  "utctime s = \<lparr>asn1_type = V_ASN1_UTCTIME, asn1_data = bytes_of s\<rparr>"

text \<open>The name \<^verbatim>\<open>/CN=first/O=Acme/CN=second\<close>; 13 and 17 stand for the identifiers of CN and O.\<close>

definition dn_example :: x509_name where
  "dn_example =
     [\<lparr>OBJ_obj2nid = 13, OBJ_nid2sn = Some ''CN'', i2t_ASN1_OBJECT = ''commonName'',
        entry_data = bytes_of ''first''\<rparr>,
      \<lparr>OBJ_obj2nid = 17, OBJ_nid2sn = Some ''O'', i2t_ASN1_OBJECT = ''organizationName'',
        entry_data = bytes_of ''Acme''\<rparr>,
      \<lparr>OBJ_obj2nid = 13, OBJ_nid2sn = Some ''CN'', i2t_ASN1_OBJECT = ''commonName'',
        entry_data = bytes_of ''second''\<rparr>]"

text \<open>The name \<^verbatim>\<open>/CN=example.com/O=Acme\<close>.\<close>

definition dn_acme :: x509_name where
  "dn_acme =
     [\<lparr>OBJ_obj2nid = 13, OBJ_nid2sn = Some ''CN'', i2t_ASN1_OBJECT = ''commonName'',
        entry_data = bytes_of ''example.com''\<rparr>,
      \<lparr>OBJ_obj2nid = 17, OBJ_nid2sn = Some ''O'', i2t_ASN1_OBJECT = ''organizationName'',
        entry_data = bytes_of ''Acme''\<rparr>]"

text \<open>A header that defines every macro of the table, the \<open>i\<close>-th one as the literal \<open>i\<close>.\<close>

definition header_by_index :: "string \<Rightarrow> nat option" where
  "header_by_index = map_of (zip x509_v_names [0..<length x509_v_names])"

text \<open>An issuer check that never succeeds (20 is an error code), and a chain of two.\<close>

definition never_issued :: "x509 \<Rightarrow> x509 \<Rightarrow> int" where
  "never_issued issuer subject = 20"

definition chain_example :: "x509 list" where
  "chain_example = [crt_serial, crt_no_serial]"

section \<open>Facts about buffers and sizes\<close>

declare exclude_tls_grease_loop.simps [simp del]
declare ssl_sock_get_dn_entry_loop.simps [simp del]
declare ssl_sock_get_dn_oneline_loop.simps [simp del]
declare decimal.simps [simp del]

lemma unat_size_t_of_nat: "n < 2 ^ 31 \<Longrightarrow> unat (word_of_nat n :: size_t) = n"
  by (simp add: unat_of_nat)

lemma size_lt_of_nat: "n < 2 ^ 31 \<Longrightarrow> (s < (word_of_nat n :: size_t)) = (unat s < n)"
  by (simp add: word_less_nat_alt unat_size_t_of_nat)

lemma of_int_len_minus2: "2 \<le> n \<Longrightarrow> (word_of_int (int n - 2) :: size_t) = word_of_nat (n - 2)"
  by (metis of_int_of_nat_eq of_nat_diff of_nat_numeral)

lemma buf_bytes_memcpy0:
  "unat d = length s \<Longrightarrow> buf_bytes (b\<lparr>area := memcpy (area b) 0 s, data := d\<rparr>) = s"
  by (auto simp: buf_bytes_def memcpy_def intro!: nth_equalityI)

lemma buf_bytes_append:
  assumes "unat d' = unat (data b) + length src"
  shows "buf_bytes (b\<lparr>area := memcpy (area b) (unat (data b)) src, data := d'\<rparr>) = buf_bytes b @ src"
  using assms by (auto simp: buf_bytes_def memcpy_def nth_append intro!: nth_equalityI)

lemma unat_plus_small:
  fixes d s :: size_t
  assumes "unat d + k \<le> unat s"
  shows "unat (d + word_of_nat k) = unat d + k"
proof -
  have "unat s < 2 ^ 64" using unsigned_less [of s] by simp
  then have k: "k < 2 ^ 64" and dk: "unat d + k < 2 ^ 64" using assms by linarith+
  have "unat (word_of_nat k :: size_t) = k" using k by (simp add: unat_of_nat)
  then show ?thesis using dk by (simp add: unat_word_ariths(1))
qed

lemma room_for_pair:
  fixes d s :: size_t
  assumes "unat d + 2 \<le> unat s"
  shows "d \<le> s - 2"
proof -
  have "(2::size_t) \<le> s" using assms by (simp add: word_le_nat_alt)
  then have "unat (s - 2) = unat s - 2" by (simp add: unat_sub)
  then show ?thesis using assms by (simp add: word_le_nat_alt)
qed

lemma room_for_byte:
  fixes d s :: size_t
  assumes "unat d + 1 \<le> unat s"
  shows "s - d > 0"
proof -
  have "d \<le> s" using assms by (simp add: word_le_nat_alt)
  then have "unat (s - d) = unat s - unat d" by (simp add: unat_sub)
  then show ?thesis using assms by (simp add: word_less_nat_alt)
qed

lemma buf_bytes_appendI:
  assumes "area b' = memcpy (area b) (unat (data b)) src"
    and "unat (data b') = unat (data b) + length src"
  shows "buf_bytes b' = buf_bytes b @ src"
  using assms by (auto simp: buf_bytes_def memcpy_def nth_append intro!: nth_equalityI)

lemma pair_fits:
  fixes d s :: size_t
  assumes "2 \<le> s" and "d \<le> s - 2"
  shows "d + 2 \<le> s"
proof -
  have s2: "unat (s - 2) = unat s - 2" using assms(1) by (simp add: unat_sub)
  have "unat d + 2 \<le> unat s"
    using assms s2 by (simp add: word_le_nat_alt)
  then show ?thesis
    using unat_plus_small [of d 2 s] by (simp add: word_le_nat_alt)
qed

lemma byte_fits:
  fixes d s :: size_t
  assumes "d \<le> s" and "s - d > 0"
  shows "d + 1 \<le> s"
proof -
  have "unat (s - d) = unat s - unat d" using assms(1) by (simp add: unat_sub)
  then have "unat d + 1 \<le> unat s"
    using assms(2) by (simp add: word_less_nat_alt)
  then show ?thesis
    using unat_plus_small [of d 1 s] by (simp add: word_le_nat_alt)
qed

section \<open>The serial number\<close>

text \<open>
  Claim C1. For a certificate whose serial has \<open>L\<close> raw bytes and a buffer of capacity
  \<open>C\<close>, \<^verbatim>\<open>ssl_sock_get_serial\<close> returns 1 with \<open>data = L\<close> and the serial's bytes in the
  buffer exactly when \<open>C \<ge> L\<close>, and returns -1 exactly when \<open>C < L\<close>; without a serial
  field it returns 0. The length \<open>L\<close> is a C \<^verbatim>\<open>int\<close>, hence below \<open>2 ^ 31\<close>.
\<close>

theorem ssl_sock_get_serial_tristate:
  "(X509_get_serialNumber crt = None \<longrightarrow> ssl_sock_get_serial crt out = (0, out)) \<and>
   (\<forall>serial. X509_get_serialNumber crt = Some serial \<and> length (asn1_data serial) < 2 ^ 31 \<longrightarrow>
      ((fst (ssl_sock_get_serial crt out) = 1 \<and>
        unat (data (snd (ssl_sock_get_serial crt out))) = length (asn1_data serial) \<and>
        buf_bytes (snd (ssl_sock_get_serial crt out)) = asn1_data serial)
         \<longleftrightarrow> length (asn1_data serial) \<le> unat (size out)) \<and>
      (fst (ssl_sock_get_serial crt out) = 1 \<longleftrightarrow> length (asn1_data serial) \<le> unat (size out)) \<and>
      (fst (ssl_sock_get_serial crt out) = -1 \<longleftrightarrow> unat (size out) < length (asn1_data serial)))"
proof -
  have some: "((fst (ssl_sock_get_serial crt out) = 1 \<and>
        unat (data (snd (ssl_sock_get_serial crt out))) = length (asn1_data serial) \<and>
        buf_bytes (snd (ssl_sock_get_serial crt out)) = asn1_data serial)
         \<longleftrightarrow> length (asn1_data serial) \<le> unat (size out)) \<and>
      (fst (ssl_sock_get_serial crt out) = 1 \<longleftrightarrow> length (asn1_data serial) \<le> unat (size out)) \<and>
      (fst (ssl_sock_get_serial crt out) = -1 \<longleftrightarrow> unat (size out) < length (asn1_data serial))"
    if s: "X509_get_serialNumber crt = Some serial" and l: "length (asn1_data serial) < 2 ^ 31"
    for serial
  proof -
    have u: "unat (word_of_int (asn1_length serial) :: size_t) = length (asn1_data serial)"
      using unat_size_t_of_nat [OF l] by (simp add: asn1_length_def)
    have c: "(size out < word_of_int (asn1_length serial)) \<longleftrightarrow>
             unat (size out) < length (asn1_data serial)"
      by (simp add: word_less_nat_alt u)
    show ?thesis
      using s c u by (auto simp: ssl_sock_get_serial_def buf_bytes_memcpy0)
  qed
  have none: "X509_get_serialNumber crt = None \<longrightarrow> ssl_sock_get_serial crt out = (0, out)"
    by (simp add: ssl_sock_get_serial_def)
  from none some show ?thesis by blast
qed

text \<open>The serial \<open>01 A0 FF\<close> into buffers of capacity 3 and 2, and a certificate without serial.\<close>

theorem ssl_sock_get_serial_tristate_witness:
  "X509_get_serialNumber crt_serial = Some \<lparr>asn1_type = 2, asn1_data = [0x01, 0xA0, 0xFF]\<rparr> \<and>
   fst (ssl_sock_get_serial crt_serial (empty_buffer 3)) = 1 \<and>
   unat (data (snd (ssl_sock_get_serial crt_serial (empty_buffer 3)))) = 3 \<and>
   buf_bytes (snd (ssl_sock_get_serial crt_serial (empty_buffer 3))) = [0x01, 0xA0, 0xFF] \<and>
   fst (ssl_sock_get_serial crt_serial (empty_buffer 2)) = -1 \<and>
   X509_get_serialNumber crt_no_serial = None \<and>
   fst (ssl_sock_get_serial crt_no_serial (empty_buffer 3)) = 0"
proof -
  let ?serial = "\<lparr>asn1_type = 2, asn1_data = [0x01, 0xA0, 0xFF]\<rparr>"
  have s: "X509_get_serialNumber crt_serial = Some ?serial"
    by (simp add: crt_serial_def)
  have l: "length (asn1_data ?serial) < 2 ^ 31"
    by simp
  have n: "X509_get_serialNumber crt_no_serial = None"
    by (simp add: crt_no_serial_def)
  have c3: "length (asn1_data ?serial) \<le> unat (size (empty_buffer 3))"
    and c2: "unat (size (empty_buffer 2)) < length (asn1_data ?serial)"
    by (simp_all add: empty_buffer_def)
  from ssl_sock_get_serial_tristate [of crt_serial "empty_buffer 3"] s l c3
  have "fst (ssl_sock_get_serial crt_serial (empty_buffer 3)) = 1 \<and>
        unat (data (snd (ssl_sock_get_serial crt_serial (empty_buffer 3)))) = 3 \<and>
        buf_bytes (snd (ssl_sock_get_serial crt_serial (empty_buffer 3))) = [0x01, 0xA0, 0xFF]"
    by simp
  moreover from ssl_sock_get_serial_tristate [of crt_serial "empty_buffer 2"] s l c2
  have "fst (ssl_sock_get_serial crt_serial (empty_buffer 2)) = -1"
    by simp
  moreover from ssl_sock_get_serial_tristate [of crt_no_serial "empty_buffer 3"] n
  have "fst (ssl_sock_get_serial crt_no_serial (empty_buffer 3)) = 0"
    by simp
  ultimately show ?thesis using s n by simp
qed

section \<open>The DER encoding\<close>

text \<open>
  Claim C3 says that \<^verbatim>\<open>ssl_sock_crt2der\<close> returns 0 when the encoder reports a non-positive
  length, as the comment above the function does. The code returns 1 there and leaves
  the buffer as it was: here the encoder reports -1 for a buffer of capacity 16.
\<close>

theorem ssl_sock_crt2der_encoder_failure:
  "i2d_X509_len crt_serial = -1 \<and>
   fst (ssl_sock_crt2der crt_serial (empty_buffer 16)) = 1 \<and>
   data (snd (ssl_sock_crt2der crt_serial (empty_buffer 16))) = 0"
  by (simp add: crt_serial_def ssl_sock_crt2der_def empty_buffer_def)

section \<open>Validity timestamps as text\<close>

text \<open>
  Claim C5. A generalized-time value is accepted exactly when it has at least 12 bytes
  and starts with \<open>'2'\<close> \<open>'0'\<close>; the output is then the value without its first two
  bytes. A UTC-time value is accepted exactly when it has at least 10 bytes and its first
  byte is below \<open>'5'\<close>; the output is then the value itself. An accepted value that does
  not fit the buffer gives -1, and every other tag or a shorter value gives 0. The length
  is a C \<^verbatim>\<open>int\<close>, hence below \<open>2 ^ 31\<close>.
\<close>

theorem ssl_sock_get_time_cases:
  assumes len: "length (asn1_data tm) < 2 ^ 31"
  shows "(asn1_type tm = V_ASN1_GENERALIZEDTIME \<longrightarrow>
            (if 12 \<le> length (asn1_data tm) \<and> asn1_data tm ! 0 = 0x32 \<and> asn1_data tm ! 1 = 0x30
             then (if length (asn1_data tm) - 2 \<le> unat (size out)
                   then fst (ssl_sock_get_time tm out) = 1 \<and>
                        unat (data (snd (ssl_sock_get_time tm out))) = length (asn1_data tm) - 2 \<and>
                        buf_bytes (snd (ssl_sock_get_time tm out)) = drop 2 (asn1_data tm)
                   else ssl_sock_get_time tm out = (-1, out))
             else ssl_sock_get_time tm out = (0, out))) \<and>
         (asn1_type tm = V_ASN1_UTCTIME \<longrightarrow>
            (if 10 \<le> length (asn1_data tm) \<and> asn1_data tm ! 0 < 0x35
             then (if length (asn1_data tm) \<le> unat (size out)
                   then fst (ssl_sock_get_time tm out) = 1 \<and>
                        unat (data (snd (ssl_sock_get_time tm out))) = length (asn1_data tm) \<and>
                        buf_bytes (snd (ssl_sock_get_time tm out)) = asn1_data tm
                   else ssl_sock_get_time tm out = (-1, out))
             else ssl_sock_get_time tm out = (0, out))) \<and>
         (asn1_type tm \<noteq> V_ASN1_GENERALIZEDTIME \<and> asn1_type tm \<noteq> V_ASN1_UTCTIME \<longrightarrow>
            ssl_sock_get_time tm out = (0, out))"
proof -
  let ?n = "length (asn1_data tm)"
  have n2: "?n - 2 < 2 ^ 31" using len by simp
  have gen: "12 \<le> ?n \<Longrightarrow> (word_of_int (asn1_length tm - 2) :: size_t) = word_of_nat (?n - 2)"
    by (simp add: asn1_length_def of_int_len_minus2)
  have utc: "(word_of_int (asn1_length tm) :: size_t) = word_of_nat ?n"
    by (simp add: asn1_length_def)
  have tk: "take (nat (asn1_length tm - 2)) (drop 2 (asn1_data tm)) = drop 2 (asn1_data tm)"
    by (simp add: asn1_length_def)
  have a: "asn1_type tm = V_ASN1_GENERALIZEDTIME \<longrightarrow>
            (if 12 \<le> length (asn1_data tm) \<and> asn1_data tm ! 0 = 0x32 \<and> asn1_data tm ! 1 = 0x30
             then (if length (asn1_data tm) - 2 \<le> unat (size out)
                   then fst (ssl_sock_get_time tm out) = 1 \<and>
                        unat (data (snd (ssl_sock_get_time tm out))) = length (asn1_data tm) - 2 \<and>
                        buf_bytes (snd (ssl_sock_get_time tm out)) = drop 2 (asn1_data tm)
                   else ssl_sock_get_time tm out = (-1, out))
             else ssl_sock_get_time tm out = (0, out))"
  proof (cases "12 \<le> ?n")
    case True
    show ?thesis
      using True gen [OF True] size_lt_of_nat [OF n2, of "size out"] unat_size_t_of_nat [OF n2]
      by (auto simp: ssl_sock_get_time_def tk buf_bytes_memcpy0 simp del: of_int_diff)
        (simp_all add: asn1_length_def)
  next
    case False
    then show ?thesis by (auto simp: ssl_sock_get_time_def asn1_length_def)
  qed
  have b: "asn1_type tm = V_ASN1_UTCTIME \<longrightarrow>
            (if 10 \<le> length (asn1_data tm) \<and> asn1_data tm ! 0 < 0x35
             then (if length (asn1_data tm) \<le> unat (size out)
                   then fst (ssl_sock_get_time tm out) = 1 \<and>
                        unat (data (snd (ssl_sock_get_time tm out))) = length (asn1_data tm) \<and>
                        buf_bytes (snd (ssl_sock_get_time tm out)) = asn1_data tm
                   else ssl_sock_get_time tm out = (-1, out))
             else ssl_sock_get_time tm out = (0, out))"
    using utc size_lt_of_nat [OF len, of "size out"] unat_size_t_of_nat [OF len]
    by (auto simp: ssl_sock_get_time_def buf_bytes_memcpy0 V_ASN1_UTCTIME_def
        V_ASN1_GENERALIZEDTIME_def)
      (simp_all add: asn1_length_def)
  have c: "asn1_type tm \<noteq> V_ASN1_GENERALIZEDTIME \<and> asn1_type tm \<noteq> V_ASN1_UTCTIME \<longrightarrow>
            ssl_sock_get_time tm out = (0, out)"
    by (simp add: ssl_sock_get_time_def)
  from a b c show ?thesis by blast
qed

text \<open>
  The generalized time \<^verbatim>\<open>20230115123045Z\<close> loses its century, the UTC time
  \<^verbatim>\<open>230115123045Z\<close> is copied, and a buffer of capacity 12 is too small for both
  13-byte results.
\<close>

theorem ssl_sock_get_time_cases_witness:
  "length (asn1_data (gentime ''20230115123045Z'')) < 2 ^ 31 \<and>
   fst (ssl_sock_get_time (gentime ''20230115123045Z'') (empty_buffer 13)) = 1 \<and>
   buf_bytes (snd (ssl_sock_get_time (gentime ''20230115123045Z'') (empty_buffer 13)))
     = bytes_of ''230115123045Z'' \<and>
   fst (ssl_sock_get_time (gentime ''20230115123045Z'') (empty_buffer 12)) = -1 \<and>
   fst (ssl_sock_get_time (gentime ''19990115123045Z'') (empty_buffer 13)) = 0 \<and>
   fst (ssl_sock_get_time (utctime ''230115123045Z'') (empty_buffer 13)) = 1 \<and>
   buf_bytes (snd (ssl_sock_get_time (utctime ''230115123045Z'') (empty_buffer 13)))
     = bytes_of ''230115123045Z'' \<and>
   fst (ssl_sock_get_time (utctime ''230115123045Z'') (empty_buffer 12)) = -1 \<and>
   fst (ssl_sock_get_time (utctime ''990115123045Z'') (empty_buffer 13)) = 0"
  using ssl_sock_get_time_cases [of "gentime ''20230115123045Z''" "empty_buffer 13"]
    ssl_sock_get_time_cases [of "gentime ''20230115123045Z''" "empty_buffer 12"]
    ssl_sock_get_time_cases [of "gentime ''19990115123045Z''" "empty_buffer 13"]
    ssl_sock_get_time_cases [of "utctime ''230115123045Z''" "empty_buffer 13"]
    ssl_sock_get_time_cases [of "utctime ''230115123045Z''" "empty_buffer 12"]
    ssl_sock_get_time_cases [of "utctime ''990115123045Z''" "empty_buffer 13"]
  by (simp add: gentime_def utctime_def bytes_of_def empty_buffer_def
      V_ASN1_UTCTIME_def V_ASN1_GENERALIZEDTIME_def)

section \<open>One entry of a distinguished name\<close>

text \<open>
  With a negative \<open>pos\<close> the loop walks the reversed name; from index \<open>i\<close> with the
  counter at \<open>cur\<close> it selects the match number \<open>cur - pos\<close> of what is left.
\<close>

lemma dn_entry_loop_reverse:
  "pos < 0 \<Longrightarrow> pos < cur \<Longrightarrow> i \<le> length a \<Longrightarrow>
   ssl_sock_get_dn_entry_loop a entry pos i cur out =
     (let ms = filter (entry_matches entry) (drop i (rev a)); k = nat (cur - pos)
      in if k \<le> length ms then dn_entry_copy (ms ! (k - 1)) out else (0, out))"
proof (induction a entry pos i cur out rule: ssl_sock_get_dn_entry_loop.induct)
  case (1 a entry pos i cur out)
  show ?case
  proof (cases "i < length a")
    case False
    then have "ssl_sock_get_dn_entry_loop a entry pos i cur out = (0, out)"
      by (subst ssl_sock_get_dn_entry_loop.simps) simp
    then show ?thesis using False "1.prems" by simp
  next
    case True
    let ?ne = "a ! (length a - 1 - i)"
    have nth: "rev a ! i = ?ne" using True by (simp add: rev_nth)
    have split: "drop i (rev a) = ?ne # drop (Suc i) (rev a)"
      using True nth by (metis Cons_nth_drop_Suc length_rev)
    show ?thesis
    proof (cases "entry_matches entry ?ne")
      case nm: False
      then have c: "chunk_strcasecmp entry (entry_name ?ne) \<noteq> 0" by (simp add: entry_matches_def)
      have "ssl_sock_get_dn_entry_loop a entry pos i cur out =
            ssl_sock_get_dn_entry_loop a entry pos (i + 1) cur out"
        using True "1.prems"(1) c by (simp add: ssl_sock_get_dn_entry_loop.simps [of a entry pos i])
      also have "\<dots> = (let ms = filter (entry_matches entry) (drop (i + 1) (rev a)); k = nat (cur - pos)
            in if k \<le> length ms then dn_entry_copy (ms ! (k - 1)) out else (0, out))"
        by (rule "1.IH"(1) [OF True refl refl refl]) (use c True "1.prems" in simp_all)
      finally show ?thesis using split nm by simp
    next
      case m: True
      then have c: "chunk_strcasecmp entry (entry_name ?ne) = 0" by (simp add: entry_matches_def)
      show ?thesis
      proof (cases "cur - 1 = pos")
        case hit: True
        have "ssl_sock_get_dn_entry_loop a entry pos i cur out = dn_entry_copy ?ne out"
          using True "1.prems"(1) c hit
          by (simp add: ssl_sock_get_dn_entry_loop.simps [of a entry pos i] dn_entry_copy_def Let_def)
        moreover have "nat (cur - pos) = 1" using hit by simp
        ultimately show ?thesis using split m by (simp add: Let_def)
      next
        case miss: False
        then have lt: "pos < cur - 1" using "1.prems"(2) by simp
        have "ssl_sock_get_dn_entry_loop a entry pos i cur out =
              ssl_sock_get_dn_entry_loop a entry pos (i + 1) (cur - 1) out"
          using True "1.prems"(1) c miss
          by (simp add: ssl_sock_get_dn_entry_loop.simps [of a entry pos i] Let_def)
        also have "\<dots> = (let ms = filter (entry_matches entry) (drop (i + 1) (rev a)); k = nat (cur - 1 - pos)
            in if k \<le> length ms then dn_entry_copy (ms ! (k - 1)) out else (0, out))"
          by (rule "1.IH"(2) [OF True refl refl refl]) (use c True "1.prems" miss lt in simp_all)
        finally have unfolded: "ssl_sock_get_dn_entry_loop a entry pos i cur out =
            (let ms = filter (entry_matches entry) (drop (i + 1) (rev a)); k = nat (cur - 1 - pos)
             in if k \<le> length ms then dn_entry_copy (ms ! (k - 1)) out else (0, out))" .
        define k where "k = nat (cur - 1 - pos) - 1"
        have k: "nat (cur - 1 - pos) = Suc k" "nat (cur - pos) = Suc (Suc k)"
          using lt unfolding k_def by linarith+
        show ?thesis
          using unfolded split m k by (simp add: Let_def)
      qed
    qed
  qed
qed

text \<open>
  Claim C8. For a negative \<open>pos\<close>, \<^verbatim>\<open>ssl_sock_get_dn_entry\<close> walks the entries in reverse
  order and selects the \<open>|pos|\<close>-th matching attribute counted from the end (\<open>pos = -1\<close> is
  the last match). It returns 0 when there is no such match and -1 when the selected value
  is longer than the buffer's capacity; otherwise it returns 1 and the buffer holds the
  value. The value lengths are C \<^verbatim>\<open>int\<close>s, hence below \<open>2 ^ 31\<close>.
\<close>

theorem ssl_sock_get_dn_entry_negative_pos:
  assumes neg: "pos < 0"
    and lens: "\<forall>ne \<in> set a. length (entry_data ne) < 2 ^ 31"
  shows "(let ms = rev (filter (\<lambda>ne. chunk_strcasecmp entry (entry_name ne) = 0) a);
              k = nat (- pos)
          in if k \<le> length ms
             then (if unat (size out) < length (entry_data (ms ! (k - 1)))
                   then ssl_sock_get_dn_entry a entry pos out = (-1, out\<lparr>data := 0\<rparr>)
                   else fst (ssl_sock_get_dn_entry a entry pos out) = 1 \<and>
                        unat (data (snd (ssl_sock_get_dn_entry a entry pos out))) =
                          length (entry_data (ms ! (k - 1))) \<and>
                        buf_bytes (snd (ssl_sock_get_dn_entry a entry pos out)) =
                          entry_data (ms ! (k - 1)))
             else ssl_sock_get_dn_entry a entry pos out = (0, out\<lparr>data := 0\<rparr>))"
proof -
  let ?ms = "rev (filter (\<lambda>ne. chunk_strcasecmp entry (entry_name ne) = 0) a)"
  let ?k = "nat (- pos)"
  have ms: "filter (entry_matches entry) (drop 0 (rev a)) = ?ms"
    by (simp add: rev_filter entry_matches_def [abs_def])
  have run: "ssl_sock_get_dn_entry a entry pos out =
      (if ?k \<le> length ?ms then dn_entry_copy (?ms ! (?k - 1)) (out\<lparr>data := 0\<rparr>)
       else (0, out\<lparr>data := 0\<rparr>))"
    unfolding ssl_sock_get_dn_entry_def
    using dn_entry_loop_reverse [of pos 0 0 a entry "out\<lparr>data := 0\<rparr>"] neg ms
    by (simp add: Let_def)
  show ?thesis
  proof (cases "?k \<le> length ?ms")
    case False
    then show ?thesis using run by (simp add: Let_def)
  next
    case True
    let ?ne = "?ms ! (?k - 1)"
    have "0 < ?k" using neg by simp
    then have "?k - 1 < length ?ms" using True by linarith
    then have "?ne \<in> set ?ms" by (rule nth_mem)
    then have "?ne \<in> set a" by simp
    then have l: "length (entry_data ?ne) < 2 ^ 31" using lens by blast
    have "ssl_sock_get_dn_entry a entry pos out = dn_entry_copy ?ne (out\<lparr>data := 0\<rparr>)"
      using run True by simp
    then show ?thesis
      using True size_lt_of_nat [OF l, of "size out"] unat_size_t_of_nat [OF l]
      by (simp add: Let_def dn_entry_copy_def buf_bytes_memcpy0)
  qed
qed

text \<open>
  In \<^verbatim>\<open>/CN=first/O=Acme/CN=second\<close> the name \<^verbatim>\<open>cn\<close> at -1 is \<^verbatim>\<open>second\<close>, at -2 it is
  \<^verbatim>\<open>first\<close>, at -3 there is none, and \<^verbatim>\<open>second\<close> does not fit five bytes.
\<close>

theorem ssl_sock_get_dn_entry_negative_pos_witness:
  "fst (ssl_sock_get_dn_entry dn_example ''cn'' (-1) (empty_buffer 8)) = 1 \<and>
   buf_bytes (snd (ssl_sock_get_dn_entry dn_example ''cn'' (-1) (empty_buffer 8))) = bytes_of ''second'' \<and>
   fst (ssl_sock_get_dn_entry dn_example ''cn'' (-2) (empty_buffer 8)) = 1 \<and>
   buf_bytes (snd (ssl_sock_get_dn_entry dn_example ''cn'' (-2) (empty_buffer 8))) = bytes_of ''first'' \<and>
   fst (ssl_sock_get_dn_entry dn_example ''cn'' (-3) (empty_buffer 8)) = 0 \<and>
   fst (ssl_sock_get_dn_entry dn_example ''cn'' (-1) (empty_buffer 5)) = -1"
proof -
  have lens: "\<forall>ne \<in> set dn_example. length (entry_data ne) < 2 ^ 31"
    by (simp add: dn_example_def bytes_of_def)
  have ms: "rev (filter (\<lambda>ne. chunk_strcasecmp ''cn'' (entry_name ne) = 0) dn_example) =
            [dn_example ! 2, dn_example ! 0]"
    by (simp add: dn_example_def chunk_strcasecmp_def entry_name_def NID_undef_def ascii_upper_def)
  have vals: "entry_data (dn_example ! 2) = bytes_of ''second''"
    "entry_data (dn_example ! 0) = bytes_of ''first''"
    by (simp_all add: dn_example_def)
  have sz: "unat (size (empty_buffer 8)) = 8" "unat (size (empty_buffer 5)) = 5"
    by (simp_all add: empty_buffer_def)
  have "fst (ssl_sock_get_dn_entry dn_example ''cn'' (-1) (empty_buffer 8)) = 1 \<and>
        buf_bytes (snd (ssl_sock_get_dn_entry dn_example ''cn'' (-1) (empty_buffer 8))) = bytes_of ''second''"
    using ssl_sock_get_dn_entry_negative_pos [of "-1" dn_example "''cn''" "empty_buffer 8"] lens
    by (simp add: ms vals sz Let_def bytes_of_def)
  moreover have "fst (ssl_sock_get_dn_entry dn_example ''cn'' (-2) (empty_buffer 8)) = 1 \<and>
        buf_bytes (snd (ssl_sock_get_dn_entry dn_example ''cn'' (-2) (empty_buffer 8))) = bytes_of ''first''"
    using ssl_sock_get_dn_entry_negative_pos [of "-2" dn_example "''cn''" "empty_buffer 8"] lens
    by (simp add: ms vals sz Let_def bytes_of_def)
  moreover have "fst (ssl_sock_get_dn_entry dn_example ''cn'' (-3) (empty_buffer 8)) = 0"
    using ssl_sock_get_dn_entry_negative_pos [of "-3" dn_example "''cn''" "empty_buffer 8"] lens
    by (simp add: ms vals sz Let_def bytes_of_def)
  moreover have "fst (ssl_sock_get_dn_entry dn_example ''cn'' (-1) (empty_buffer 5)) = -1"
    using ssl_sock_get_dn_entry_negative_pos [of "-1" dn_example "''cn''" "empty_buffer 5"] lens
    by (simp add: ms vals sz Let_def bytes_of_def)
  ultimately show ?thesis by simp
qed

section \<open>One entry of a distinguished name, counted from the front\<close>

lemma dn_entry_loop_forward:
  "0 \<le> pos \<Longrightarrow> cur < pos \<Longrightarrow> i \<le> length a \<Longrightarrow>
   ssl_sock_get_dn_entry_loop a entry pos i cur out =
     (let ms = filter (entry_matches entry) (drop i a); k = nat (pos - cur)
      in if k \<le> length ms then dn_entry_copy (ms ! (k - 1)) out else (0, out))"
proof (induction a entry pos i cur out rule: ssl_sock_get_dn_entry_loop.induct)
  case (1 a entry pos i cur out)
  have np: "\<not> pos < 0" using "1.prems"(1) by simp
  show ?case
  proof (cases "i < length a")
    case False
    then have "ssl_sock_get_dn_entry_loop a entry pos i cur out = (0, out)"
      by (subst ssl_sock_get_dn_entry_loop.simps) simp
    then show ?thesis using False "1.prems" by simp
  next
    case True
    let ?ne = "a ! i"
    have split: "drop i a = ?ne # drop (Suc i) a"
      using True by (simp add: Cons_nth_drop_Suc)
    show ?thesis
    proof (cases "entry_matches entry ?ne")
      case nm: False
      then have c: "chunk_strcasecmp entry (entry_name ?ne) \<noteq> 0" by (simp add: entry_matches_def)
      have "ssl_sock_get_dn_entry_loop a entry pos i cur out =
            ssl_sock_get_dn_entry_loop a entry pos (i + 1) cur out"
        using True np c by (simp add: ssl_sock_get_dn_entry_loop.simps [of a entry pos i])
      also have "\<dots> = (let ms = filter (entry_matches entry) (drop (i + 1) a); k = nat (pos - cur)
            in if k \<le> length ms then dn_entry_copy (ms ! (k - 1)) out else (0, out))"
        by (rule "1.IH"(1) [OF True refl refl refl]) (use c True np "1.prems" in simp_all)
      finally show ?thesis using split nm by simp
    next
      case m: True
      then have c: "chunk_strcasecmp entry (entry_name ?ne) = 0" by (simp add: entry_matches_def)
      show ?thesis
      proof (cases "cur + 1 = pos")
        case hit: True
        have "ssl_sock_get_dn_entry_loop a entry pos i cur out = dn_entry_copy ?ne out"
          using True np c hit
          by (simp add: ssl_sock_get_dn_entry_loop.simps [of a entry pos i] dn_entry_copy_def Let_def)
        moreover have "nat (pos - cur) = 1" using hit by simp
        ultimately show ?thesis using split m by (simp add: Let_def)
      next
        case miss: False
        then have lt: "cur + 1 < pos" using "1.prems"(2) by simp
        have "ssl_sock_get_dn_entry_loop a entry pos i cur out =
              ssl_sock_get_dn_entry_loop a entry pos (i + 1) (cur + 1) out"
          using True np c miss
          by (simp add: ssl_sock_get_dn_entry_loop.simps [of a entry pos i] Let_def)
        also have "\<dots> = (let ms = filter (entry_matches entry) (drop (i + 1) a); k = nat (pos - (cur + 1))
            in if k \<le> length ms then dn_entry_copy (ms ! (k - 1)) out else (0, out))"
          by (rule "1.IH"(2) [OF True refl refl refl]) (use c True np "1.prems" miss lt in simp_all)
        finally have unfolded: "ssl_sock_get_dn_entry_loop a entry pos i cur out =
            (let ms = filter (entry_matches entry) (drop (i + 1) a); k = nat (pos - (cur + 1))
             in if k \<le> length ms then dn_entry_copy (ms ! (k - 1)) out else (0, out))" .
        define k where "k = nat (pos - (cur + 1)) - 1"
        have k: "nat (pos - (cur + 1)) = Suc k" "nat (pos - cur) = Suc (Suc k)"
          using lt unfolding k_def by linarith+
        show ?thesis
          using unfolded split m k by (simp add: Let_def)
      qed
    qed
  qed
qed

text \<open>
  For a positive \<open>pos\<close>, \<^verbatim>\<open>ssl_sock_get_dn_entry\<close> selects the \<open>pos\<close>-th matching attribute
  in the order of the entries, with the same three outcomes.
\<close>

theorem ssl_sock_get_dn_entry_positive_pos:
  assumes pos: "0 < pos"
    and lens: "\<forall>ne \<in> set a. length (entry_data ne) < 2 ^ 31"
  shows "(let ms = filter (\<lambda>ne. chunk_strcasecmp entry (entry_name ne) = 0) a;
              k = nat pos
          in if k \<le> length ms
             then (if unat (size out) < length (entry_data (ms ! (k - 1)))
                   then ssl_sock_get_dn_entry a entry pos out = (-1, out\<lparr>data := 0\<rparr>)
                   else fst (ssl_sock_get_dn_entry a entry pos out) = 1 \<and>
                        unat (data (snd (ssl_sock_get_dn_entry a entry pos out))) =
                          length (entry_data (ms ! (k - 1))) \<and>
                        buf_bytes (snd (ssl_sock_get_dn_entry a entry pos out)) =
                          entry_data (ms ! (k - 1)))
             else ssl_sock_get_dn_entry a entry pos out = (0, out\<lparr>data := 0\<rparr>))"
proof -
  let ?ms = "filter (\<lambda>ne. chunk_strcasecmp entry (entry_name ne) = 0) a"
  let ?k = "nat pos"
  have ms: "filter (entry_matches entry) (drop 0 a) = ?ms"
    by (simp add: entry_matches_def [abs_def])
  have run: "ssl_sock_get_dn_entry a entry pos out =
      (if ?k \<le> length ?ms then dn_entry_copy (?ms ! (?k - 1)) (out\<lparr>data := 0\<rparr>)
       else (0, out\<lparr>data := 0\<rparr>))"
    unfolding ssl_sock_get_dn_entry_def
    using dn_entry_loop_forward [of pos 0 0 a entry "out\<lparr>data := 0\<rparr>"] pos ms
    by (simp add: Let_def)
  show ?thesis
  proof (cases "?k \<le> length ?ms")
    case False
    then show ?thesis using run by (simp add: Let_def)
  next
    case True
    let ?ne = "?ms ! (?k - 1)"
    have "0 < ?k" using pos by simp
    then have "?k - 1 < length ?ms" using True by linarith
    then have "?ne \<in> set ?ms" by (rule nth_mem)
    then have "?ne \<in> set a" by simp
    then have l: "length (entry_data ?ne) < 2 ^ 31" using lens by blast
    have "ssl_sock_get_dn_entry a entry pos out = dn_entry_copy ?ne (out\<lparr>data := 0\<rparr>)"
      using run True by simp
    then show ?thesis
      using True size_lt_of_nat [OF l, of "size out"] unat_size_t_of_nat [OF l]
      by (simp add: Let_def dn_entry_copy_def buf_bytes_memcpy0)
  qed
qed

text \<open>In \<^verbatim>\<open>/CN=first/O=Acme/CN=second\<close> the first \<^verbatim>\<open>CN\<close> is \<^verbatim>\<open>first\<close>, and there is no third.\<close>

theorem ssl_sock_get_dn_entry_positive_pos_witness:
  "fst (ssl_sock_get_dn_entry dn_example ''CN'' 1 (empty_buffer 8)) = 1 \<and>
   buf_bytes (snd (ssl_sock_get_dn_entry dn_example ''CN'' 1 (empty_buffer 8))) = bytes_of ''first'' \<and>
   fst (ssl_sock_get_dn_entry dn_example ''CN'' 2 (empty_buffer 8)) = 1 \<and>
   buf_bytes (snd (ssl_sock_get_dn_entry dn_example ''CN'' 2 (empty_buffer 8))) = bytes_of ''second'' \<and>
   fst (ssl_sock_get_dn_entry dn_example ''CN'' 3 (empty_buffer 8)) = 0 \<and>
   fst (ssl_sock_get_dn_entry dn_example ''CN'' 2 (empty_buffer 5)) = -1"
proof -
  have lens: "\<forall>ne \<in> set dn_example. length (entry_data ne) < 2 ^ 31"
    by (simp add: dn_example_def bytes_of_def)
  have ms: "filter (\<lambda>ne. chunk_strcasecmp ''CN'' (entry_name ne) = 0) dn_example =
            [dn_example ! 0, dn_example ! 2]"
    by (simp add: dn_example_def chunk_strcasecmp_def entry_name_def NID_undef_def ascii_upper_def)
  have vals: "entry_data (dn_example ! 2) = bytes_of ''second''"
    "entry_data (dn_example ! 0) = bytes_of ''first''"
    by (simp_all add: dn_example_def)
  have sz: "unat (size (empty_buffer 8)) = 8" "unat (size (empty_buffer 5)) = 5"
    by (simp_all add: empty_buffer_def)
  have "fst (ssl_sock_get_dn_entry dn_example ''CN'' 1 (empty_buffer 8)) = 1 \<and>
        buf_bytes (snd (ssl_sock_get_dn_entry dn_example ''CN'' 1 (empty_buffer 8))) = bytes_of ''first''"
    using ssl_sock_get_dn_entry_positive_pos [of 1 dn_example "''CN''" "empty_buffer 8"] lens
    by (simp add: ms vals sz Let_def bytes_of_def)
  moreover have "fst (ssl_sock_get_dn_entry dn_example ''CN'' 2 (empty_buffer 8)) = 1 \<and>
        buf_bytes (snd (ssl_sock_get_dn_entry dn_example ''CN'' 2 (empty_buffer 8))) = bytes_of ''second''"
    using ssl_sock_get_dn_entry_positive_pos [of 2 dn_example "''CN''" "empty_buffer 8"] lens
    by (simp add: ms vals sz Let_def bytes_of_def)
  moreover have "fst (ssl_sock_get_dn_entry dn_example ''CN'' 3 (empty_buffer 8)) = 0"
    using ssl_sock_get_dn_entry_positive_pos [of 3 dn_example "''CN''" "empty_buffer 8"] lens
    by (simp add: ms vals sz Let_def bytes_of_def)
  moreover have "fst (ssl_sock_get_dn_entry dn_example ''CN'' 2 (empty_buffer 5)) = -1"
    using ssl_sock_get_dn_entry_positive_pos [of 2 dn_example "''CN''" "empty_buffer 5"] lens
    by (simp add: ms vals sz Let_def bytes_of_def)
  ultimately show ?thesis by simp
qed

section \<open>The one-line form of a distinguished name\<close>

lemma oneline_take_Suc:
  "i < length a \<Longrightarrow> oneline (take (Suc i) a) = oneline (take i a) @ oneline_entry (a ! i)"
  by (simp add: oneline_def take_Suc_conv_app_nth)

lemma oneline_take_le: "length (oneline (take i a)) \<le> length (oneline a)"
proof -
  have "oneline a = oneline (take i a) @ oneline (drop i a)"
    unfolding oneline_def by (metis append_take_drop_id concat_append map_append)
  then show ?thesis by simp
qed

lemma oneline_empty_iff: "oneline a = [] \<longleftrightarrow> a = []"
  by (cases a) (simp_all add: oneline_def oneline_entry_def)

lemma dn_oneline_loop_renders:
  "i \<le> length a \<Longrightarrow> length (oneline a) < 2 ^ 31 \<Longrightarrow>
   l = int (length (oneline (take i a))) \<Longrightarrow>
   unat (data out) = length (oneline (take i a)) \<Longrightarrow>
   buf_bytes out = oneline (take i a) \<Longrightarrow>
   length (oneline (take i a)) \<le> unat (size out) \<Longrightarrow>
   (if length (oneline a) \<le> unat (size out)
    then fst (ssl_sock_get_dn_oneline_loop a i l out) = (if a = [] then 0 else 1) \<and>
         buf_bytes (snd (ssl_sock_get_dn_oneline_loop a i l out)) = oneline a \<and>
         unat (data (snd (ssl_sock_get_dn_oneline_loop a i l out))) = length (oneline a)
    else fst (ssl_sock_get_dn_oneline_loop a i l out) = -1)"
proof (induction a i l out rule: ssl_sock_get_dn_oneline_loop.induct)
  case (1 a i l out)
  show ?case
  proof (cases "i < length a")
    case False
    then have all: "take i a = a" using "1.prems"(1) by simp
    have run: "ssl_sock_get_dn_oneline_loop a i l out = (if data out = 0 then 0 else 1, out)"
      using False by (subst ssl_sock_get_dn_oneline_loop.simps) simp
    have "data out = 0 \<longleftrightarrow> a = []"
      using "1.prems"(4) all oneline_empty_iff [of a] by (simp add: unat_eq_0 [symmetric])
    moreover have "length (oneline a) \<le> unat (size out)"
      using "1.prems"(6) all by simp
    ultimately show ?thesis using run "1.prems"(4,5) all by simp
  next
    case True
    define ent where "ent = oneline_entry (a ! i)"
    define l' where "l' = l + (1 + int (length (entry_name (a ! i))) + 1 + int (length (entry_data (a ! i))))"
    define out' where "out' = out\<lparr>data := word_of_int l',
           area := memcpy (area out) (nat l)
                     ([0x2F] @ bytes_of (entry_name (a ! i)) @ [0x3D] @ entry_data (a ! i))\<rparr>"
    have l'_len: "l' = int (length (oneline (take (Suc i) a)))"
      using True "1.prems"(3)
      by (simp add: l'_def oneline_take_Suc oneline_entry_def bytes_of_def)
    have l'_small: "length (oneline (take (Suc i) a)) < 2 ^ 31"
      using oneline_take_le [of "Suc i" a] "1.prems"(2) by linarith
    have w: "(word_of_int l' :: size_t) = word_of_nat (length (oneline (take (Suc i) a)))"
      by (simp add: l'_len)
    have gt: "(word_of_int l' > size out) \<longleftrightarrow> unat (size out) < length (oneline (take (Suc i) a))"
      unfolding w by (rule size_lt_of_nat [OF l'_small])
    show ?thesis
    proof (cases "word_of_int l' > size out")
      case over: True
      then have run: "ssl_sock_get_dn_oneline_loop a i l out = (-1, out)"
        using True unfolding l'_def
        by (subst ssl_sock_get_dn_oneline_loop.simps) (simp add: Let_def)
      have "unat (size out) < length (oneline a)"
        using over gt oneline_take_le [of "Suc i" a] by linarith
      then show ?thesis using run by simp
    next
      case fits: False
      then have step: "ssl_sock_get_dn_oneline_loop a i l out =
                 ssl_sock_get_dn_oneline_loop a (i + 1) l' out'"
        using True unfolding l'_def out'_def
        by (subst ssl_sock_get_dn_oneline_loop.simps) (simp add: Let_def)
      have d': "unat (data out') = length (oneline (take (Suc i) a))"
        by (simp add: out'_def w unat_size_t_of_nat [OF l'_small])
      have nl: "nat l = unat (data out)" using "1.prems"(3,4) by simp
      have "buf_bytes out' = buf_bytes out @ oneline_entry (a ! i)"
      proof (rule buf_bytes_appendI)
        show "area out' = memcpy (area out) (unat (data out)) (oneline_entry (a ! i))"
          by (simp add: out'_def nl oneline_entry_def)
        show "unat (data out') = unat (data out) + length (oneline_entry (a ! i))"
          using d' True "1.prems"(4) by (simp add: oneline_take_Suc)
      qed
      then have b': "buf_bytes out' = oneline (take (Suc i) a)"
        using True "1.prems"(5) by (simp add: oneline_take_Suc)
      have sz: "size out' = size out" by (simp add: out'_def)
      have p1: "i + 1 \<le> length a" using True by simp
      have p3: "l' = int (length (oneline (take (i + 1) a)))" using l'_len by simp
      have p4: "unat (data out') = length (oneline (take (i + 1) a))" using d' by simp
      have p5: "buf_bytes out' = oneline (take (i + 1) a)" using b' by simp
      have p6: "length (oneline (take (i + 1) a)) \<le> unat (size out')"
        using fits gt sz by simp
      note ih = "1.IH" [OF True refl refl refl refl refl, folded l'_def, folded out'_def,
          OF fits p1 "1.prems"(2) p3 p4 p5 p6]
      have "a \<noteq> []" using True by auto
      then show ?thesis using ih step sz by (auto split: if_splits)
    qed
  qed
qed

text \<open>
  \<^verbatim>\<open>ssl_sock_get_dn_oneline\<close> writes every attribute as \<^verbatim>\<open>/<name>=<value>\<close> in the order of
  the entries. It returns -1 exactly when the whole text is longer than the capacity,
  else 0 for an empty name and 1 otherwise. The running length is a C \<^verbatim>\<open>int\<close>, hence the
  text is shorter than \<open>2 ^ 31\<close>.
\<close>

theorem ssl_sock_get_dn_oneline_renders:
  assumes "length (oneline a) < 2 ^ 31"
  shows "(if length (oneline a) \<le> unat (size out)
          then fst (ssl_sock_get_dn_oneline a out) = (if a = [] then 0 else 1) \<and>
               buf_bytes (snd (ssl_sock_get_dn_oneline a out)) = oneline a \<and>
               unat (data (snd (ssl_sock_get_dn_oneline a out))) = length (oneline a)
          else fst (ssl_sock_get_dn_oneline a out) = -1)"
proof -
  have "oneline (take 0 a) = []" "buf_bytes (out\<lparr>data := 0\<rparr>) = []"
    by (simp_all add: oneline_def buf_bytes_def)
  then show ?thesis
    using dn_oneline_loop_renders [of 0 a 0 "out\<lparr>data := 0\<rparr>"] assms
    by (simp add: ssl_sock_get_dn_oneline_def)
qed

text \<open>
  The name of attributes CN \<^verbatim>\<open>example.com\<close> and O \<^verbatim>\<open>Acme\<close> gives the 22 bytes
  \<^verbatim>\<open>/CN=example.com/O=Acme\<close>; with a capacity of 21 the result is -1, and the empty name
  gives 0.
\<close>

theorem ssl_sock_get_dn_oneline_renders_witness:
  "oneline dn_acme = bytes_of ''/CN=example.com/O=Acme'' \<and>
   length (oneline dn_acme) = 22 \<and>
   fst (ssl_sock_get_dn_oneline dn_acme (empty_buffer 22)) = 1 \<and>
   unat (data (snd (ssl_sock_get_dn_oneline dn_acme (empty_buffer 22)))) = 22 \<and>
   buf_bytes (snd (ssl_sock_get_dn_oneline dn_acme (empty_buffer 22)))
     = bytes_of ''/CN=example.com/O=Acme'' \<and>
   fst (ssl_sock_get_dn_oneline dn_acme (empty_buffer 21)) = -1 \<and>
   fst (ssl_sock_get_dn_oneline [] (empty_buffer 22)) = 0"
proof -
  have r: "oneline dn_acme = bytes_of ''/CN=example.com/O=Acme''"
    by (simp add: oneline_def oneline_entry_def dn_acme_def entry_name_def NID_undef_def bytes_of_def)
  have n: "length (oneline dn_acme) = 22"
    by (simp add: r bytes_of_def)
  have e: "oneline [] = []"
    by (simp add: oneline_def)
  have sz: "unat (size (empty_buffer 22)) = 22" "unat (size (empty_buffer 21)) = 21"
    by (simp_all add: empty_buffer_def)
  have ne: "dn_acme \<noteq> []"
    by (simp add: dn_acme_def)
  have "fst (ssl_sock_get_dn_oneline dn_acme (empty_buffer 22)) = 1 \<and>
        unat (data (snd (ssl_sock_get_dn_oneline dn_acme (empty_buffer 22)))) = 22 \<and>
        buf_bytes (snd (ssl_sock_get_dn_oneline dn_acme (empty_buffer 22)))
          = bytes_of ''/CN=example.com/O=Acme''"
    using ssl_sock_get_dn_oneline_renders [of dn_acme "empty_buffer 22"] n sz ne r by simp
  moreover have "fst (ssl_sock_get_dn_oneline dn_acme (empty_buffer 21)) = -1"
    using ssl_sock_get_dn_oneline_renders [of dn_acme "empty_buffer 21"] n sz by simp
  moreover have "fst (ssl_sock_get_dn_oneline [] (empty_buffer 22)) = 0"
    using ssl_sock_get_dn_oneline_renders [of "[]" "empty_buffer 22"] e by simp
  ultimately show ?thesis using r n by simp
qed

lemma dn_oneline_loop_bounded:
  "data out \<le> size out \<Longrightarrow>
   data (snd (ssl_sock_get_dn_oneline_loop a i l out)) \<le> size out \<and>
   size (snd (ssl_sock_get_dn_oneline_loop a i l out)) = size out"
proof (induction a i l out rule: ssl_sock_get_dn_oneline_loop.induct)
  case (1 a i l out)
  show ?case
  proof (cases "i < length a")
    case False
    then have "ssl_sock_get_dn_oneline_loop a i l out = (if data out = 0 then 0 else 1, out)"
      by (subst ssl_sock_get_dn_oneline_loop.simps) simp
    then show ?thesis using "1.prems" by simp
  next
    case True
    define l' where "l' = l + (1 + int (length (entry_name (a ! i))) + 1 + int (length (entry_data (a ! i))))"
    define out' where "out' = out\<lparr>data := word_of_int l',
           area := memcpy (area out) (nat l)
                     ([0x2F] @ bytes_of (entry_name (a ! i)) @ [0x3D] @ entry_data (a ! i))\<rparr>"
    show ?thesis
    proof (cases "word_of_int l' > size out")
      case over: True
      then have "ssl_sock_get_dn_oneline_loop a i l out = (-1, out)"
        using True unfolding l'_def
        by (subst ssl_sock_get_dn_oneline_loop.simps) (simp add: Let_def)
      then show ?thesis using "1.prems" by simp
    next
      case fits: False
      then have step: "ssl_sock_get_dn_oneline_loop a i l out =
                 ssl_sock_get_dn_oneline_loop a (i + 1) l' out'"
        using True unfolding l'_def out'_def
        by (subst ssl_sock_get_dn_oneline_loop.simps) (simp add: Let_def)
      have le: "data out' \<le> size out'" using fits by (simp add: out'_def not_less)
      have "data (snd (ssl_sock_get_dn_oneline_loop a (i + 1) l' out')) \<le> size out' \<and>
            size (snd (ssl_sock_get_dn_oneline_loop a (i + 1) l' out')) = size out'"
        using "1.IH" [OF True refl refl refl refl refl] fits le
        unfolding l'_def out'_def by simp
      then show ?thesis using step by (simp add: out'_def)
    qed
  qed
qed

text \<open>
  \<^verbatim>\<open>ssl_sock_get_dn_oneline\<close> returns with \<open>data \<le> size\<close>, whatever the name and the buffer:
  \<open>data\<close> is only advanced after the comparison with \<open>size\<close>.
\<close>

theorem ssl_sock_get_dn_oneline_data_le_size:
  "data (snd (ssl_sock_get_dn_oneline a out)) \<le> size (snd (ssl_sock_get_dn_oneline a out)) \<and>
   size (snd (ssl_sock_get_dn_oneline a out)) = size out"
  using dn_oneline_loop_bounded [of "out\<lparr>data := 0\<rparr>" a 0 0]
  by (simp add: ssl_sock_get_dn_oneline_def)

section \<open>The length never exceeds the capacity\<close>

lemma dn_entry_loop_bounded:
  "data out \<le> size out \<Longrightarrow>
   data (snd (ssl_sock_get_dn_entry_loop a entry pos i cur out)) \<le> size out \<and>
   size (snd (ssl_sock_get_dn_entry_loop a entry pos i cur out)) = size out"
proof (induction a entry pos i cur out rule: ssl_sock_get_dn_entry_loop.induct)
  case (1 a entry pos i cur out)
  show ?case
    using "1.IH" "1.prems"
    by (subst (1 2) ssl_sock_get_dn_entry_loop.simps) (auto simp: Let_def not_less)
qed

text \<open>
  The extractors \<^verbatim>\<open>ssl_sock_get_serial\<close>, \<^verbatim>\<open>ssl_sock_crt2der\<close>, \<^verbatim>\<open>ssl_sock_get_time\<close> and
  \<^verbatim>\<open>ssl_sock_get_dn_entry\<close> return with \<open>data \<le> size\<close> when they are called with it.
\<close>

theorem extractors_data_le_size:
  assumes "data out \<le> size out"
  shows "data (snd (ssl_sock_get_serial crt out)) \<le> size (snd (ssl_sock_get_serial crt out)) \<and>
         data (snd (ssl_sock_crt2der crt out)) \<le> size (snd (ssl_sock_crt2der crt out)) \<and>
         data (snd (ssl_sock_get_time tm out)) \<le> size (snd (ssl_sock_get_time tm out)) \<and>
         data (snd (ssl_sock_get_dn_entry a entry pos out))
           \<le> size (snd (ssl_sock_get_dn_entry a entry pos out))"
proof -
  have "data (snd (ssl_sock_get_serial crt out)) \<le> size (snd (ssl_sock_get_serial crt out))"
    using assms by (auto simp: ssl_sock_get_serial_def not_less split: option.splits)
  moreover have "data (snd (ssl_sock_crt2der crt out)) \<le> size (snd (ssl_sock_crt2der crt out))"
    using assms by (auto simp: ssl_sock_crt2der_def Let_def not_less)
  moreover have "data (snd (ssl_sock_get_time tm out)) \<le> size (snd (ssl_sock_get_time tm out))"
    using assms by (auto simp: ssl_sock_get_time_def not_less)
  moreover have "data (snd (ssl_sock_get_dn_entry a entry pos out))
           \<le> size (snd (ssl_sock_get_dn_entry a entry pos out))"
    using dn_entry_loop_bounded [of "out\<lparr>data := 0\<rparr>" a entry pos 0 0]
    by (simp add: ssl_sock_get_dn_entry_def)
  ultimately show ?thesis by simp
qed

text \<open>A buffer of capacity 4 stays within its capacity, also when nothing is copied.\<close>

theorem extractors_data_le_size_witness:
  "data (empty_buffer 4) \<le> size (empty_buffer 4) \<and>
   data (snd (ssl_sock_get_serial crt_serial (empty_buffer 4)))
     \<le> size (snd (ssl_sock_get_serial crt_serial (empty_buffer 4))) \<and>
   data (snd (ssl_sock_crt2der crt_serial (empty_buffer 4)))
     \<le> size (snd (ssl_sock_crt2der crt_serial (empty_buffer 4))) \<and>
   data (snd (ssl_sock_get_time (utctime ''230115123045Z'') (empty_buffer 4)))
     \<le> size (snd (ssl_sock_get_time (utctime ''230115123045Z'') (empty_buffer 4))) \<and>
   data (snd (ssl_sock_get_dn_entry dn_example ''O'' 1 (empty_buffer 4)))
     \<le> size (snd (ssl_sock_get_dn_entry dn_example ''O'' 1 (empty_buffer 4)))"
proof -
  have h: "data (empty_buffer 4) \<le> size (empty_buffer 4)"
    by (simp add: empty_buffer_def)
  from extractors_data_le_size [OF h, of crt_serial "utctime ''230115123045Z''" dn_example "''O''" 1] h
  show ?thesis by blast
qed

section \<open>The root of the verified chain\<close>

lemma verified_chain_root_loop_no_self_issued:
  "\<forall>c \<in> set chain. chk c c \<noteq> X509_V_OK \<Longrightarrow>
   verified_chain_root_loop chk chain crt = (if chain = [] then crt else Some (last chain))"
  by (induction chain arbitrary: crt) auto

lemma verified_chain_root_loop_found:
  "chain \<noteq> [] \<Longrightarrow> verified_chain_root_loop chk chain crt \<noteq> None"
proof (induction chain arbitrary: crt)
  case Nil
  then show ?case by simp
next
  case (Cons c rest)
  then show ?case by (cases rest) auto
qed

text \<open>
  Claim C10. For a non-empty verified chain in which no entry is self-issued,
  \<^verbatim>\<open>ssl_sock_get_verified_chain_root\<close> returns the last certificate of the chain; the null
  pointer is returned only for an unavailable or an empty chain.
\<close>

theorem ssl_sock_get_verified_chain_root_last:
  "(\<forall>chain. SSL_get0_verified_chain s = Some chain \<and> chain \<noteq> [] \<and>
       (\<forall>c \<in> set chain. chk c c \<noteq> X509_V_OK) \<longrightarrow>
       ssl_sock_get_verified_chain_root chk s = Some (last chain)) \<and>
   (ssl_sock_get_verified_chain_root chk s = None \<longleftrightarrow>
      SSL_get0_verified_chain s = None \<or> SSL_get0_verified_chain s = Some [])"
proof -
  have last: "ssl_sock_get_verified_chain_root chk s = Some (last chain)"
    if "SSL_get0_verified_chain s = Some chain" "chain \<noteq> []" "\<forall>c \<in> set chain. chk c c \<noteq> X509_V_OK"
    for chain
    using that verified_chain_root_loop_no_self_issued [of chain chk None]
    by (simp add: ssl_sock_get_verified_chain_root_def)
  have null: "ssl_sock_get_verified_chain_root chk s = None \<longleftrightarrow>
      SSL_get0_verified_chain s = None \<or> SSL_get0_verified_chain s = Some []"
  proof (cases "SSL_get0_verified_chain s")
    case None
    then show ?thesis by (simp add: ssl_sock_get_verified_chain_root_def)
  next
    case (Some chain)
    then show ?thesis
      using verified_chain_root_loop_found [of chain chk None]
      by (cases "chain = []") (simp_all add: ssl_sock_get_verified_chain_root_def)
  qed
  from last null show ?thesis by blast
qed

text \<open>A chain of two certificates, neither self-issued: the second one is returned.\<close>

theorem ssl_sock_get_verified_chain_root_last_witness:
  "chain_example \<noteq> [] \<and>
   never_issued crt_serial crt_serial \<noteq> X509_V_OK \<and>
   never_issued crt_no_serial crt_no_serial \<noteq> X509_V_OK \<and>
   ssl_sock_get_verified_chain_root never_issued \<lparr>SSL_get0_verified_chain = Some chain_example\<rparr>
     = Some crt_no_serial \<and>
   ssl_sock_get_verified_chain_root never_issued \<lparr>SSL_get0_verified_chain = Some []\<rparr> = None \<and>
   ssl_sock_get_verified_chain_root never_issued \<lparr>SSL_get0_verified_chain = None\<rparr> = None"
proof -
  have ne: "chain_example \<noteq> []" and ns: "\<forall>c \<in> set chain_example. never_issued c c \<noteq> X509_V_OK"
    by (simp_all add: chain_example_def never_issued_def X509_V_OK_def)
  have l: "last chain_example = crt_no_serial"
    by (simp add: chain_example_def)
  from ssl_sock_get_verified_chain_root_last
         [of "\<lparr>SSL_get0_verified_chain = Some chain_example\<rparr>" never_issued] ne ns l
  have "ssl_sock_get_verified_chain_root never_issued \<lparr>SSL_get0_verified_chain = Some chain_example\<rparr>
          = Some crt_no_serial"
    by simp
  moreover from ssl_sock_get_verified_chain_root_last [of "\<lparr>SSL_get0_verified_chain = Some []\<rparr>" never_issued]
  have "ssl_sock_get_verified_chain_root never_issued \<lparr>SSL_get0_verified_chain = Some []\<rparr> = None"
    by simp
  moreover from ssl_sock_get_verified_chain_root_last [of "\<lparr>SSL_get0_verified_chain = None\<rparr>" never_issued]
  have "ssl_sock_get_verified_chain_root never_issued \<lparr>SSL_get0_verified_chain = None\<rparr> = None"
    by simp
  ultimately show ?thesis using ne ns by (simp add: chain_example_def)
qed

section \<open>The version parser\<close>

lemma masks: "(0xf :: unsigned_int) = mask 4" "(0xff :: unsigned_int) = mask 8"
  by (simp_all add: mask_eq_exp_minus_1)

lemma patch_field_numversion: "patch_field (numversion major minor fix 0 0) = 0"
  unfolding patch_field_def numversion_def masks
  by (rule bit_eqI) (auto simp: bit_simps)

lemma status_nibble_numversion: "status_nibble (numversion major minor fix 0 0) = 0"
  unfolding status_nibble_def numversion_def masks
  by (rule bit_eqI) (auto simp: bit_simps)

lemma not_digit_space: "isdigit c \<Longrightarrow> \<not> isspace c \<and> c \<noteq> CHR ''-'' \<and> c \<noteq> CHR ''+''"
  by (auto simp: isdigit_def isspace_def)

lemma strtol_digits_rest:
  "\<forall>c \<in> set ds. isdigit c \<Longrightarrow> \<not> isdigit (deref rest) \<Longrightarrow>
   snd (strtol_digits acc (ds @ rest)) = rest"
proof (induction ds arbitrary: acc)
  case Nil
  then show ?case by (cases rest) (simp_all add: deref_def)
next
  case (Cons d ds)
  then show ?case by simp
qed

lemma strtol_rest:
  assumes "ds \<noteq> []" and "\<forall>c \<in> set ds. isdigit c" and "\<not> isdigit (deref rest)"
  shows "snd (strtol (ds @ rest)) = rest"
proof -
  obtain d ds' where ds: "ds = d # ds'" using assms(1) by (cases ds) auto
  then have d: "isdigit d" using assms(2) by simp
  obtain v where sd: "strtol_digits 0 (ds @ rest) = (v, rest)"
    using strtol_digits_rest [OF assms(2,3), of 0] by (cases "strtol_digits 0 (ds @ rest)") auto
  have dw: "dropWhile isspace (ds @ rest) = ds @ rest"
    using ds not_digit_space [OF d] by simp
  have dr: "deref (ds @ rest) = d"
    using ds by (simp add: deref_def)
  show ?thesis
    unfolding strtol_def dw by (simp add: dr d not_digit_space [OF d] sd Let_def)
qed

lemma nd_dot: "\<not> isdigit (deref (CHR ''.'' # r))" and nd_hyphen: "\<not> isdigit (deref (CHR ''-'' # r))"
  by (simp_all add: isdigit_def deref_def)

text \<open>
  Claim C4 says that for a version \<^verbatim>\<open>MAJOR.MINOR.FIX-<suffix>\<close> whose suffix does not begin
  with \<^verbatim>\<open>beta\<close> the patch field is 1 plus the sum of the letters' offsets from \<open>'A'\<close>
  and the status nibble is \<open>0xF\<close>. The code gives \<^verbatim>\<open>3.0.0-alpha17\<close> the value
  \<^verbatim>\<open>0x30000000\<close>, as the comment above the function lists it: patch 0 and status 0,
  where the sum of the claim would be \<open>0xC8\<close>.
\<close>

theorem openssl_version_parser_alpha17:
  "openssl_version_parser (Some ''3.0.0-alpha17'') = 0x30000000 \<and>
   status_nibble (openssl_version_parser (Some ''3.0.0-alpha17'')) \<noteq> 0xF \<and>
   patch_field (openssl_version_parser (Some ''3.0.0-alpha17'')) \<noteq> patch_letters 1 ''alpha17'' AND 0xff \<and>
   patch_letters 1 ''alpha17'' AND 0xff = 0xC8"
  by (simp add: openssl_version_parser_def strtol_def deref_def isspace_def isdigit_def
      digit_val_def LONG_MAX_def LONG_MIN_def numversion_def status_nibble_def patch_field_def)

text \<open>
  Claim C4 as amended: for every version \<^verbatim>\<open>MAJOR.MINOR.FIX-<suffix>\<close>, the three fields
  being non-empty runs of decimal digits, whose suffix does not begin with \<^verbatim>\<open>beta\<close>, the
  value \<^verbatim>\<open>openssl_version_parser\<close> produces has the patch field 0 and the status nibble 0.
\<close>

theorem openssl_version_parser_hyphen_suffix:
  assumes "d1 \<noteq> []" "\<forall>c \<in> set d1. isdigit c"
    and "d2 \<noteq> []" "\<forall>c \<in> set d2. isdigit c"
    and "d3 \<noteq> []" "\<forall>c \<in> set d3. isdigit c"
    and "take 4 suffix \<noteq> ''beta''"
  shows "patch_field (openssl_version_parser (Some (d1 @ ''.'' @ d2 @ ''.'' @ d3 @ ''-'' @ suffix))) = 0 \<and>
         status_nibble (openssl_version_parser (Some (d1 @ ''.'' @ d2 @ ''.'' @ d3 @ ''-'' @ suffix))) = 0"
proof -
  let ?r3 = "CHR ''-'' # suffix"
  let ?r2 = "CHR ''.'' # d3 @ ?r3"
  let ?r1 = "CHR ''.'' # d2 @ ?r2"
  obtain major_l where s1: "strtol (d1 @ ?r1) = (major_l, ?r1)"
    using strtol_rest [OF assms(1,2) nd_dot, of "d2 @ ?r2"] by (cases "strtol (d1 @ ?r1)") auto
  obtain minor_l where s2: "strtol (d2 @ ?r2) = (minor_l, ?r2)"
    using strtol_rest [OF assms(3,4) nd_dot, of "d3 @ ?r3"] by (cases "strtol (d2 @ ?r2)") auto
  obtain fix_l where s3: "strtol (d3 @ ?r3) = (fix_l, ?r3)"
    using strtol_rest [OF assms(5,6) nd_hyphen, of suffix] by (cases "strtol (d3 @ ?r3)") auto
  have z: "patch_field 0 = 0" "status_nibble 0 = 0"
    by (simp_all add: patch_field_def status_nibble_def)
  have "openssl_version_parser (Some (d1 @ ?r1)) = 0 \<or>
        openssl_version_parser (Some (d1 @ ?r1)) =
          numversion (word_of_int major_l) (word_of_int minor_l) (word_of_int fix_l) 0 0"
    using s1 s2 s3 assms(1,7)
    by (simp add: openssl_version_parser_def deref_def Let_def)
  then show ?thesis
    using z patch_field_numversion status_nibble_numversion by auto
qed

text \<open>The version \<^verbatim>\<open>3.0.0-alpha17\<close> is of that form.\<close>

theorem openssl_version_parser_hyphen_suffix_witness:
  "take 4 ''alpha17'' \<noteq> ''beta'' \<and> isdigit CHR ''3'' \<and> isdigit CHR ''0'' \<and>
   patch_field (openssl_version_parser (Some ''3.0.0-alpha17'')) = 0 \<and>
   status_nibble (openssl_version_parser (Some ''3.0.0-alpha17'')) = 0"
proof -
  have d: "isdigit CHR ''3''" "isdigit CHR ''0''"
    by (simp_all add: isdigit_def)
  have s: "take 4 ''alpha17'' \<noteq> ''beta''"
    by simp
  from openssl_version_parser_hyphen_suffix [of "''3''" "''0''" "''0''" "''alpha17''"] d s
  have "patch_field (openssl_version_parser (Some ''3.0.0-alpha17'')) = 0 \<and>
        status_nibble (openssl_version_parser (Some ''3.0.0-alpha17'')) = 0"
    by simp
  then show ?thesis using d s by simp
qed

text \<open>
  The versions listed in the comment above \<^verbatim>\<open>openssl_version_parser\<close> and in the
  specification: a release has the status \<open>0xF\<close>, a beta has its number as status, the
  letters that follow the fix number directly make the patch field, and a major number
  above 15 is refused.
\<close>

theorem openssl_version_parser_examples:
  "openssl_version_parser (Some ''3.0.0'') = 0x3000000f \<and>
   openssl_version_parser (Some ''3.0.0-beta2'') = 0x30000002 \<and>
   openssl_version_parser (Some ''3.0.0-beta14'') = 0x3000000e \<and>
   openssl_version_parser (Some ''1.0.2u'') = 0x1000215f \<and>
   openssl_version_parser (Some ''0.9.8zh'') = 0x0090821f \<and>
   patch_field (openssl_version_parser (Some ''1.0.2u'')) = 21 \<and>
   status_nibble (openssl_version_parser (Some ''1.0.2u'')) = 0xF \<and>
   openssl_version_parser (Some ''9999.0.0'') = 0 \<and>
   openssl_version_parser (Some '''') = 0 \<and>
   openssl_version_parser None = 0"
  by (simp add: openssl_version_parser_def strtol_def deref_def isspace_def isdigit_def
      digit_val_def LONG_MAX_def LONG_MIN_def numversion_def status_nibble_def patch_field_def)


section \<open>The GREASE filter\<close>

text \<open>
  While the kept pairs fit, the loop appends them and stops with at most one input byte
  left.
\<close>

lemma exclude_tls_grease_loop_copies:
  "ptr \<le> length input \<Longrightarrow>
   unat (data out) + length (drop_grease_pairs (drop ptr input)) \<le> unat (size out) \<Longrightarrow>
   exclude_tls_grease_loop input ptr out = (ptr', out') \<Longrightarrow>
   buf_bytes out' @ drop ptr' input = buf_bytes out @ drop_grease_pairs (drop ptr input) \<and>
   ptr' \<le> length input \<and> length input - ptr' \<le> 1 \<and> size out' = size out"
proof (induction input ptr out rule: exclude_tls_grease_loop.induct)
  case (1 input ptr out)
  show ?case
  proof (cases "int ptr < int (length input) - 1")
    case False
    then have stop: "ptr' = ptr" "out' = out"
      using "1.prems"(3) by (simp_all add: exclude_tls_grease_loop.simps [of input ptr])
    have "length (drop ptr input) \<le> 1" using False by simp
    then have "drop_grease_pairs (drop ptr input) = drop ptr input"
      by (cases "drop ptr input" rule: drop_grease_pairs.cases) simp_all
    then show ?thesis using stop "1.prems"(1) False by simp
  next
    case True
    then have lt: "ptr + 1 < length input" by simp
    let ?a = "input ! ptr" and ?b = "input ! (ptr + 1)"
    have split: "drop ptr input = ?a # ?b # drop (ptr + 2) input"
      using lt by (simp add: Cons_nth_drop_Suc)
    show ?thesis
    proof (cases "?a \<noteq> ?b \<or> ?a AND 0x0f \<noteq> 0x0a")
      case keep: True
      then have dgp: "drop_grease_pairs (drop ptr input) = ?a # ?b # drop_grease_pairs (drop (ptr + 2) input)"
        using split by auto
      have room: "unat (data out) + 2 \<le> unat (size out)"
        using "1.prems"(2) dgp by simp
      have fits: "data out \<le> size out - 2" by (rule room_for_pair [OF room])
      let ?out2 = "out\<lparr>area := memcpy (area out) (unat (data out)) [?a, ?b],
                        data := data out + 2\<rparr>"
      have d2: "unat (data out + 2) = unat (data out) + 2"
        using unat_plus_small [of "data out" 2 "size out"] room by simp
      have bb: "buf_bytes ?out2 = buf_bytes out @ [?a, ?b]"
        by (rule buf_bytes_append) (simp add: d2)
      have step: "exclude_tls_grease_loop input (ptr + 2) ?out2 = (ptr', out')"
        using "1.prems"(3) True keep fits by (simp add: exclude_tls_grease_loop.simps [of input ptr])
      have "buf_bytes out' @ drop ptr' input = buf_bytes ?out2 @ drop_grease_pairs (drop (ptr + 2) input) \<and>
            ptr' \<le> length input \<and> length input - ptr' \<le> 1 \<and> size out' = size ?out2"
        using "1.IH"(1) [OF True keep fits _ _ step] lt "1.prems"(2) dgp d2 by simp
      then show ?thesis using bb dgp by simp
    next
      case drp: False
      then have dgp: "drop_grease_pairs (drop ptr input) = drop_grease_pairs (drop (ptr + 2) input)"
        using split by auto
      have step: "exclude_tls_grease_loop input (ptr + 2) out = (ptr', out')"
        using "1.prems"(3) True drp by (simp add: exclude_tls_grease_loop.simps [of input ptr])
      show ?thesis
        using "1.IH"(2) [OF True drp _ _ step] lt "1.prems"(2) dgp by simp
    qed
  qed
qed

text \<open>
  Claim C7. With a buffer of sufficient capacity (the kept bytes fit behind the \<open>data\<close>
  bytes already there), \<^verbatim>\<open>exclude_tls_grease\<close> drops exactly the pairs of equal bytes whose
  first byte has the low nibble \<open>0xA\<close>, copies every other pair in order and copies an
  unpaired last byte: it appends \<open>drop_grease_pairs input\<close> to the buffer's bytes.
\<close>

theorem exclude_tls_grease_filters:
  assumes cap: "unat (data output) + length (drop_grease_pairs input) \<le> unat (size output)"
  shows "buf_bytes (exclude_tls_grease input output) = buf_bytes output @ drop_grease_pairs input \<and>
         size (exclude_tls_grease input output) = size output"
proof -
  obtain ptr out where loop: "exclude_tls_grease_loop input 0 output = (ptr, out)"
    by (cases "exclude_tls_grease_loop input 0 output")
  from exclude_tls_grease_loop_copies [OF _ _ loop] cap
  have eq: "buf_bytes out @ drop ptr input = buf_bytes output @ drop_grease_pairs input"
    and le: "ptr \<le> length input" and rest: "length input - ptr \<le> 1" and sz: "size out = size output"
    by simp_all
  show ?thesis
  proof (cases "ptr < length input")
    case True
    then have tail: "drop ptr input = [input ! ptr]"
      using rest Cons_nth_drop_Suc [OF True, symmetric] by simp
    have "length (buf_bytes out @ drop ptr input) \<le> unat (size out)"
      using eq cap sz by (simp add: buf_bytes_def)
    then have room: "unat (data out) + 1 \<le> unat (size out)"
      using tail by (simp add: buf_bytes_def)
    have d1: "unat (data out + 1) = unat (data out) + 1"
      using unat_plus_small [of "data out" 1 "size out"] room by simp
    have "buf_bytes (out\<lparr>area := memcpy (area out) (unat (data out)) [input ! ptr], data := data out + 1\<rparr>)
            = buf_bytes out @ [input ! ptr]"
      by (rule buf_bytes_append) (simp add: d1)
    moreover have "memcpy (area out) (unat (data out)) [input ! ptr] = (area out)(unat (data out) := input ! ptr)"
      by (auto simp: memcpy_def fun_eq_iff)
    ultimately show ?thesis
      using True loop room_for_byte [OF room] eq tail sz by (simp add: exclude_tls_grease_def)
  next
    case False
    then have "drop ptr input = []" by simp
    then show ?thesis using False loop eq sz by (simp add: exclude_tls_grease_def)
  qed
qed

text \<open>
  The inputs of the claim: \<open>0A 0A 00 01\<close> gives \<open>00 01\<close>, and \<open>1A 1B\<close> is retained;
  \<open>1A 1A 07\<close> gives the unpaired \<open>07\<close>.
\<close>

theorem exclude_tls_grease_filters_witness:
  "unat (data (empty_buffer 2)) + length (drop_grease_pairs [0x0A, 0x0A, 0x00, 0x01])
     \<le> unat (size (empty_buffer 2)) \<and>
   buf_bytes (exclude_tls_grease [0x0A, 0x0A, 0x00, 0x01] (empty_buffer 2)) = [0x00, 0x01] \<and>
   buf_bytes (exclude_tls_grease [0x1A, 0x1B] (empty_buffer 2)) = [0x1A, 0x1B] \<and>
   buf_bytes (exclude_tls_grease [0x1A, 0x1A, 0x07] (empty_buffer 2)) = [0x07]"
proof -
  have e: "buf_bytes (empty_buffer 2) = []" "unat (data (empty_buffer 2)) = 0"
    "unat (size (empty_buffer 2)) = 2"
    by (simp_all add: empty_buffer_def buf_bytes_def)
  have "buf_bytes (exclude_tls_grease [0x0A, 0x0A, 0x00, 0x01] (empty_buffer 2)) = [0x00, 0x01]"
    using exclude_tls_grease_filters [of "empty_buffer 2" "[0x0A, 0x0A, 0x00, 0x01]"] e by simp
  moreover have "buf_bytes (exclude_tls_grease [0x1A, 0x1B] (empty_buffer 2)) = [0x1A, 0x1B]"
    using exclude_tls_grease_filters [of "empty_buffer 2" "[0x1A, 0x1B]"] e by simp
  moreover have "buf_bytes (exclude_tls_grease [0x1A, 0x1A, 0x07] (empty_buffer 2)) = [0x07]"
    using exclude_tls_grease_filters [of "empty_buffer 2" "[0x1A, 0x1A, 0x07]"] e by simp
  ultimately show ?thesis using e by simp
qed

text \<open>
  Claim C2 says that every operation returns with \<open>data \<le> size\<close>, the GREASE filter with
  a buffer of capacity 0 or 1 included. There \<^verbatim>\<open>output->size - 2\<close> wraps around, the test
  \<^verbatim>\<open>output->data <= output->size - 2\<close> succeeds, and the pair \<open>00 01\<close> is written past the
  end of an empty buffer of capacity 0, and of capacity 1: \<open>data\<close> is 2 on return.
\<close>

theorem exclude_tls_grease_overruns_small_buffer:
  "data (empty_buffer 0) \<le> size (empty_buffer 0) \<and>
   size (empty_buffer 0) - 2 = 0xFFFFFFFFFFFFFFFE \<and>
   size (exclude_tls_grease [0x00, 0x01] (empty_buffer 0)) = 0 \<and>
   data (exclude_tls_grease [0x00, 0x01] (empty_buffer 0)) = 2 \<and>
   \<not> data (exclude_tls_grease [0x00, 0x01] (empty_buffer 0))
       \<le> size (exclude_tls_grease [0x00, 0x01] (empty_buffer 0)) \<and>
   data (empty_buffer 1) \<le> size (empty_buffer 1) \<and>
   size (exclude_tls_grease [0x00, 0x01] (empty_buffer 1)) = 1 \<and>
   data (exclude_tls_grease [0x00, 0x01] (empty_buffer 1)) = 2 \<and>
   \<not> data (exclude_tls_grease [0x00, 0x01] (empty_buffer 1))
       \<le> size (exclude_tls_grease [0x00, 0x01] (empty_buffer 1))"
  by (simp add: exclude_tls_grease_def exclude_tls_grease_loop.simps empty_buffer_def
      word_le_nat_alt)

lemma exclude_tls_grease_loop_bounded:
  "2 \<le> size out \<Longrightarrow> data out \<le> size out \<Longrightarrow>
   data (snd (exclude_tls_grease_loop input ptr out)) \<le> size out \<and>
   size (snd (exclude_tls_grease_loop input ptr out)) = size out"
proof (induction input ptr out rule: exclude_tls_grease_loop.induct)
  case (1 input ptr out)
  show ?case
  proof (cases "int ptr < int (length input) - 1")
    case False
    then have "exclude_tls_grease_loop input ptr out = (ptr, out)"
      by (subst exclude_tls_grease_loop.simps) simp
    then show ?thesis using "1.prems" by simp
  next
    case True
    show ?thesis
    proof (cases "input ! ptr \<noteq> input ! (ptr + 1) \<or> (input ! ptr) AND 0x0f \<noteq> 0x0a")
      case drp: False
      then have "exclude_tls_grease_loop input ptr out = exclude_tls_grease_loop input (ptr + 2) out"
        using True by (subst exclude_tls_grease_loop.simps) simp
      then show ?thesis using "1.IH"(2) [OF True drp "1.prems"] by simp
    next
      case keep: True
      show ?thesis
      proof (cases "data out \<le> size out - 2")
        case False
        then have "exclude_tls_grease_loop input ptr out = (ptr, out)"
          using True keep by (subst exclude_tls_grease_loop.simps) simp
        then show ?thesis using "1.prems" by simp
      next
        case fits: True
        let ?out2 = "out\<lparr>area := memcpy (area out) (unat (data out))
                                  [input ! ptr, input ! (ptr + 1)],
                        data := data out + 2\<rparr>"
        have step: "exclude_tls_grease_loop input ptr out = exclude_tls_grease_loop input (ptr + 2) ?out2"
          using True keep fits by (subst exclude_tls_grease_loop.simps) simp
        have "data ?out2 \<le> size ?out2" "2 \<le> size ?out2"
          using pair_fits [OF "1.prems"(1) fits] "1.prems"(1) by simp_all
        then show ?thesis using "1.IH"(1) [OF True keep fits] step by simp
      qed
    qed
  qed
qed

text \<open>
  With a capacity of at least 2, \<^verbatim>\<open>exclude_tls_grease\<close> keeps \<open>data \<le> size\<close>: it stops
  copying when the next pair does not fit.
\<close>

theorem exclude_tls_grease_data_le_size:
  assumes "2 \<le> size out" and "data out \<le> size out"
  shows "data (exclude_tls_grease input out) \<le> size (exclude_tls_grease input out) \<and>
         size (exclude_tls_grease input out) = size out"
proof -
  obtain ptr out' where loop: "exclude_tls_grease_loop input 0 out = (ptr, out')"
    by (cases "exclude_tls_grease_loop input 0 out")
  have b: "data out' \<le> size out" "size out' = size out"
    using exclude_tls_grease_loop_bounded [OF assms, of input 0] loop by simp_all
  show ?thesis
  proof (cases "size out' - data out' > 0 \<and> int (length input) - int ptr > 0")
    case True
    then have "data out' + 1 \<le> size out'" using byte_fits [of "data out'" "size out'"] b by simp
    then show ?thesis using True loop b by (simp add: exclude_tls_grease_def)
  next
    case False
    then show ?thesis using loop b by (auto simp: exclude_tls_grease_def)
  qed
qed

text \<open>Five bytes into a buffer of capacity 2: the first pair is copied and nothing else.\<close>

theorem exclude_tls_grease_data_le_size_witness:
  "(2 :: size_t) \<le> size (empty_buffer 2) \<and> data (empty_buffer 2) \<le> size (empty_buffer 2) \<and>
   data (exclude_tls_grease [0x00, 0x01, 0x02, 0x03, 0x04] (empty_buffer 2))
     \<le> size (exclude_tls_grease [0x00, 0x01, 0x02, 0x03, 0x04] (empty_buffer 2)) \<and>
   buf_bytes (exclude_tls_grease [0x00, 0x01, 0x02, 0x03, 0x04] (empty_buffer 2)) = [0x00, 0x01]"
proof -
  have h: "(2 :: size_t) \<le> size (empty_buffer 2)" "data (empty_buffer 2) \<le> size (empty_buffer 2)"
    by (simp_all add: empty_buffer_def)
  have b: "buf_bytes (exclude_tls_grease [0x00, 0x01, 0x02, 0x03, 0x04] (empty_buffer 2)) = [0x00, 0x01]"
    by (simp add: exclude_tls_grease_def exclude_tls_grease_loop.simps empty_buffer_def
        buf_bytes_def memcpy_def word_le_nat_alt word_less_nat_alt upt_rec)
  from exclude_tls_grease_data_le_size [OF h, of "[0x00, 0x01, 0x02, 0x03, 0x04]"]
  have "data (exclude_tls_grease [0x00, 0x01, 0x02, 0x03, 0x04] (empty_buffer 2))
     \<le> size (exclude_tls_grease [0x00, 0x01, 0x02, 0x03, 0x04] (empty_buffer 2))"
    by (rule conjunct1)
  with h b show ?thesis by blast
qed

section \<open>The verification error code table\<close>

text \<open>A decimal literal below \<open>2 ^ 31\<close> is read back by \<^verbatim>\<open>atoi\<close>.\<close>

lemma digit_char_digit:
  assumes "k < 10"
  shows "isdigit (digit_char k) \<and> digit_val (digit_char k) = int k"
proof -
  have "k \<in> {0, 1, 2, 3, 4, 5, 6, 7, 8, 9}" using assms by auto
  then show ?thesis
    by (auto simp: digit_char_def isdigit_def digit_val_def)
qed

lemma decimal_digits: "decimal n \<noteq> [] \<and> (\<forall>c \<in> set (decimal n). isdigit c)"
proof (induction n rule: decimal.induct)
  case (1 n)
  show ?case
  proof (cases "n < 10")
    case True
    then show ?thesis using digit_char_digit [of n] by (simp add: decimal.simps [of n])
  next
    case False
    then show ?thesis
      using "1.IH" digit_char_digit [of "n mod 10"] by (simp add: decimal.simps [of n])
  qed
qed

lemma strtol_digits_all:
  "\<forall>c \<in> set ds. isdigit c \<Longrightarrow>
   strtol_digits acc ds = (foldl (\<lambda>a c. a * 10 + digit_val c) acc ds, [])"
  by (induction ds arbitrary: acc) simp_all

lemma foldl_decimal: "foldl (\<lambda>a c. a * 10 + digit_val c) 0 (decimal n) = int n"
proof (induction n rule: decimal.induct)
  case (1 n)
  show ?case
  proof (cases "n < 10")
    case True
    then show ?thesis using digit_char_digit [of n] by (simp add: decimal.simps [of n])
  next
    case False
    have "int (n div 10) * 10 + int (n mod 10) = int n"
      by (metis div_mult_mod_eq of_nat_add of_nat_mult of_nat_numeral)
    then show ?thesis
      using False "1.IH" digit_char_digit [of "n mod 10"] by (simp add: decimal.simps [of n])
  qed
qed

lemma strtol_decimal:
  assumes "n < 2 ^ 31"
  shows "strtol (decimal n) = (int n, [])"
proof -
  obtain d ds where ds: "decimal n = d # ds"
    using decimal_digits [of n] by (cases "decimal n") auto
  then have d: "isdigit d" using decimal_digits [of n] by simp
  have sd: "strtol_digits 0 (decimal n) = (int n, [])"
    using decimal_digits [of n] by (simp add: strtol_digits_all foldl_decimal)
  have dw: "dropWhile isspace (decimal n) = decimal n"
    using ds not_digit_space [OF d] by simp
  have dr: "deref (decimal n) = d"
    using ds by (simp add: deref_def)
  have rng: "max LONG_MIN (min LONG_MAX (int n)) = int n"
    using assms by (simp add: LONG_MIN_def LONG_MAX_def)
  show ?thesis
    unfolding strtol_def dw by (simp add: dr d not_digit_space [OF d] sd Let_def rng)
qed

lemma atoi_decimal:
  assumes "n < 2 ^ 31"
  shows "atoi (decimal n) = int n"
proof -
  have "sint (word_of_int k :: unsigned_int) = k" if "0 \<le> k" "k < 2 ^ 31" for k
    using that by (simp add: signed_of_int signed_take_bit_int_eq_self)
  from this [of "int n"] have "sint (word_of_int (int n) :: unsigned_int) = int n"
    using assms by simp
  then show ?thesis
    unfolding atoi_def strtol_decimal [OF assms] by simp
qed

text \<open>The table after initialization, and the two first-match lookups.\<close>

lemma x509_v_names_distinct: "distinct x509_v_names"
  unfolding x509_v_names_def by simp

lemma x509_v_names_head:
  "\<exists>rest. x509_v_names = ''X509_V_OK'' # ''X509_V_ERR_UNSPECIFIED'' # rest"
  by (simp add: x509_v_names_def)

lemma init_strings: "map v_string (init_x509_v_err_tab tab) = map v_string tab"
  by (induction tab) simp_all

lemma x509_v_codes_strings: "map v_string (x509_v_codes Q) = x509_v_names"
  by (simp add: x509_v_codes_def comp_def)

lemma str_to_int_member:
  "distinct (map v_string tab) \<Longrightarrow> e \<in> set tab \<Longrightarrow> x509_v_err_str_to_int tab (v_string e) = v_code e"
  by (induction tab) (auto simp: image_iff)

lemma int_to_str_first:
  "i < length tab \<Longrightarrow> \<forall>j<i. v_code (tab ! j) \<noteq> v_code (tab ! i) \<Longrightarrow>
   x509_v_err_int_to_str_loop tab (v_code (tab ! i)) = Some (v_string (tab ! i))"
proof (induction tab arbitrary: i)
  case Nil
  then show ?case by simp
next
  case (Cons e es)
  show ?case
  proof (cases i)
    case 0
    then show ?thesis by simp
  next
    case (Suc k)
    have ne: "v_code e \<noteq> v_code (es ! k)"
      using Cons.prems(2) Suc by (metis nth_Cons_0 nth_Cons_Suc zero_less_Suc)
    have "\<forall>j<k. v_code (es ! j) \<noteq> v_code (es ! k)"
      using Cons.prems(2) Suc by (metis Suc_less_eq nth_Cons_Suc)
    then have "x509_v_err_int_to_str_loop es (v_code (es ! k)) = Some (v_string (es ! k))"
      using Cons.IH [of k] Cons.prems(1) Suc by simp
    then show ?thesis using ne Suc by simp
  qed
qed

lemma init_x509_v_err_tab_code:
  "e \<in> set (init_x509_v_err_tab (x509_v_codes Q)) \<Longrightarrow>
   v_code e = (if v_string e = Q (v_string e) then -1 else atoi (Q (v_string e)))"
proof -
  have "e \<in> set (init_x509_v_err_tab (map (\<lambda>x. \<lparr>v_code = -1, v_value = Q x, v_string = x\<rparr>) xs)) \<Longrightarrow>
        v_code e = (if v_string e = Q (v_string e) then -1 else atoi (Q (v_string e)))" for xs
    by (induction xs) auto
  then show "e \<in> set (init_x509_v_err_tab (x509_v_codes Q)) \<Longrightarrow>
   v_code e = (if v_string e = Q (v_string e) then -1 else atoi (Q (v_string e)))"
    unfolding x509_v_codes_def .
qed

lemma resolved_entry_code:
  assumes lit: "\<forall>x n. H x = Some n \<longrightarrow> n < 2 ^ 31"
    and e: "e \<in> set (init_x509_v_err_tab (x509_v_codes (header_text H)))"
    and r: "v_code e \<noteq> -1"
  shows "\<exists>n. H (v_string e) = Some n \<and> v_code e = int n"
proof (cases "H (v_string e)")
  case None
  then have "header_text H (v_string e) = v_string e" by (simp add: header_text_def)
  then show ?thesis using init_x509_v_err_tab_code [OF e] r by simp
next
  case (Some n)
  then have t: "header_text H (v_string e) = decimal n" by (simp add: header_text_def)
  have "n < 2 ^ 31" using lit Some by blast
  then have "atoi (decimal n) = int n" by (rule atoi_decimal)
  then show ?thesis
    using init_x509_v_err_tab_code [OF e] r t Some by (simp split: if_splits)
qed

text \<open>
  Claim C9. For every entry of the verification-error-code table whose numeric code was
  resolved at initialization (code not -1), looking the entry's name up with
  \<^verbatim>\<open>x509_v_err_str_to_int\<close> and mapping the code back with \<^verbatim>\<open>x509_v_err_int_to_str\<close> yields
  the original name; and \<^verbatim>\<open>x509_v_err_int_to_str\<close> of -1 is the null pointer, whatever the
  table holds. The header defines its macros as integer literals in the range of
  \<^verbatim>\<open>int\<close>, and no two constants of the table as the same value.
\<close>

theorem x509_v_err_round_trip:
  assumes lit: "\<forall>x n. H x = Some n \<longrightarrow> n < 2 ^ 31"
    and one: "\<forall>x \<in> set x509_v_names. \<forall>y \<in> set x509_v_names. \<forall>n.
                H x = Some n \<and> H y = Some n \<longrightarrow> x = y"
  shows "(let tab = init_x509_v_err_tab (x509_v_codes (header_text H))
          in \<forall>i<length tab.
               v_code (tab ! i) \<noteq> -1 \<longrightarrow>
               x509_v_err_int_to_str tab (x509_v_err_str_to_int tab (v_string (tab ! i)))
                 = Some (v_string (tab ! i))) \<and>
         x509_v_err_int_to_str any_tab (-1) = None"
proof -
  define tab where "tab = init_x509_v_err_tab (x509_v_codes (header_text H))"
  have strings: "map v_string tab = x509_v_names"
    by (simp add: tab_def init_strings x509_v_codes_strings)
  then have names: "distinct (map v_string tab)"
    using x509_v_names_distinct by simp
  have code: "\<exists>n. H (v_string e) = Some n \<and> v_code e = int n"
    if "e \<in> set tab" "v_code e \<noteq> -1" for e
    using resolved_entry_code [OF lit] that unfolding tab_def by blast
  have "x509_v_err_int_to_str tab (x509_v_err_str_to_int tab (v_string (tab ! i)))
          = Some (v_string (tab ! i))"
    if i: "i < length tab" and resolved: "v_code (tab ! i) \<noteq> -1" for i
  proof -
    have mem_i: "tab ! i \<in> set tab" using i by simp
    obtain n where n: "H (v_string (tab ! i)) = Some n" "v_code (tab ! i) = int n"
      using code [OF mem_i resolved] by blast
    have first: "\<forall>j<i. v_code (tab ! j) \<noteq> v_code (tab ! i)"
    proof (intro allI impI notI)
      fix j assume j: "j < i" and eq: "v_code (tab ! j) = v_code (tab ! i)"
      have mem_j: "tab ! j \<in> set tab" using i j by simp
      have "v_code (tab ! j) \<noteq> -1" using eq resolved by simp
      then obtain m where m: "H (v_string (tab ! j)) = Some m" "v_code (tab ! j) = int m"
        using code [OF mem_j] by blast
      have "m = n" using eq m(2) n(2) by simp
      moreover have "v_string (tab ! j) \<in> set x509_v_names" "v_string (tab ! i) \<in> set x509_v_names"
        using strings mem_i mem_j by (metis image_eqI set_map)+
      ultimately have "v_string (tab ! j) = v_string (tab ! i)"
        using one m(1) n(1) by blast
      then have "map v_string tab ! j = map v_string tab ! i"
        using i j by simp
      moreover have "j < length (map v_string tab)" "i < length (map v_string tab)"
        using i j by simp_all
      ultimately have "j = i"
        using names nth_eq_iff_index_eq [of "map v_string tab" j i] by blast
      then show False using j by simp
    qed
    have "x509_v_err_str_to_int tab (v_string (tab ! i)) = v_code (tab ! i)"
      using names mem_i by (simp add: str_to_int_member)
    then show ?thesis
      using resolved int_to_str_first [OF i first] by (simp add: x509_v_err_int_to_str_def)
  qed
  moreover have "x509_v_err_int_to_str any_tab (-1) = None"
    by (simp add: x509_v_err_int_to_str_def)
  ultimately show ?thesis
    unfolding tab_def [symmetric] Let_def by blast
qed

text \<open>The header that numbers the macros by their place in the table.\<close>

lemma header_by_index_nth:
  "header_by_index x = Some n \<Longrightarrow> n < length x509_v_names \<and> x509_v_names ! n = x"
proof -
  assume "header_by_index x = Some n"
  then have "(x, n) \<in> set (zip x509_v_names [0..<length x509_v_names])"
    unfolding header_by_index_def by (rule map_of_SomeD)
  then obtain i where "i < length x509_v_names" "x509_v_names ! i = x"
    "[0..<length x509_v_names] ! i = n"
    by (auto simp: in_set_zip)
  then show ?thesis by simp
qed

lemma length_x509_v_names: "length x509_v_names = 95"
  by (simp add: x509_v_names_def)

lemma header_by_index_literals: "\<forall>x n. header_by_index x = Some n \<longrightarrow> n < 2 ^ 31"
  using header_by_index_nth length_x509_v_names by fastforce

lemma header_by_index_one:
  "\<forall>x \<in> set x509_v_names. \<forall>y \<in> set x509_v_names. \<forall>n.
     header_by_index x = Some n \<and> header_by_index y = Some n \<longrightarrow> x = y"
  using header_by_index_nth by blast

lemma header_by_index_head:
  "header_by_index ''X509_V_OK'' = Some 0 \<and> header_by_index ''X509_V_ERR_UNSPECIFIED'' = Some 1"
proof -
  obtain rest where r: "x509_v_names = ''X509_V_OK'' # ''X509_V_ERR_UNSPECIFIED'' # rest"
    using x509_v_names_head by blast
  have "header_by_index (x509_v_names ! i) = Some i" if "i < length x509_v_names" for i
    unfolding header_by_index_def
    using map_of_zip_nth [of x509_v_names "[0..<length x509_v_names]" i] that
      x509_v_names_distinct by simp
  from this [of 0] this [of 1] show ?thesis
    by (simp add: r)
qed

lemma decimal_0_1: "decimal 0 = ''0''" "decimal 1 = ''1''" "decimal (Suc 0) = ''1''"
  by (simp_all add: decimal.simps [of 0] decimal.simps [of 1] decimal.simps [of "Suc 0"]
      digit_char_def)

lemma init_x509_v_err_tab_two:
  assumes "x509_v_names = ''X509_V_OK'' # ''X509_V_ERR_UNSPECIFIED'' # rest"
  shows "\<exists>tl. init_x509_v_err_tab (x509_v_codes Q) =
           (if ''X509_V_OK'' = Q ''X509_V_OK''
            then \<lparr>v_code = -1, v_value = Q ''X509_V_OK'', v_string = ''X509_V_OK''\<rparr>
            else \<lparr>v_code = atoi (Q ''X509_V_OK''), v_value = Q ''X509_V_OK'',
                  v_string = ''X509_V_OK''\<rparr>)
           # (if ''X509_V_ERR_UNSPECIFIED'' = Q ''X509_V_ERR_UNSPECIFIED''
              then \<lparr>v_code = -1, v_value = Q ''X509_V_ERR_UNSPECIFIED'',
                    v_string = ''X509_V_ERR_UNSPECIFIED''\<rparr>
              else \<lparr>v_code = atoi (Q ''X509_V_ERR_UNSPECIFIED''),
                    v_value = Q ''X509_V_ERR_UNSPECIFIED'',
                    v_string = ''X509_V_ERR_UNSPECIFIED''\<rparr>)
           # tl"
  unfolding x509_v_codes_def assms by simp

lemma atoi_0_1: "atoi ''0'' = 0" "atoi ''1'' = 1"
  by (simp_all add: atoi_def strtol_def deref_def isspace_def isdigit_def digit_val_def
      LONG_MAX_def LONG_MIN_def)

text \<open>
  With that header the second entry, \<^verbatim>\<open>X509_V_ERR_UNSPECIFIED\<close>, is resolved to 1 and makes
  the round trip.
\<close>

theorem x509_v_err_round_trip_witness:
  "v_string (init_x509_v_err_tab (x509_v_codes (header_text header_by_index)) ! 1)
     = ''X509_V_ERR_UNSPECIFIED'' \<and>
   v_code (init_x509_v_err_tab (x509_v_codes (header_text header_by_index)) ! 1) = 1 \<and>
   v_code (init_x509_v_err_tab (x509_v_codes (header_text header_by_index)) ! 0) = 0 \<and>
   x509_v_err_str_to_int (init_x509_v_err_tab (x509_v_codes (header_text header_by_index)))
       ''X509_V_ERR_UNSPECIFIED'' = 1 \<and>
   x509_v_err_int_to_str (init_x509_v_err_tab (x509_v_codes (header_text header_by_index)))
       (x509_v_err_str_to_int (init_x509_v_err_tab (x509_v_codes (header_text header_by_index)))
          ''X509_V_ERR_UNSPECIFIED'')
     = Some ''X509_V_ERR_UNSPECIFIED'' \<and>
   x509_v_err_int_to_str (init_x509_v_err_tab (x509_v_codes (header_text header_by_index))) (-1)
     = None"
proof -
  let ?tab = "init_x509_v_err_tab (x509_v_codes (header_text header_by_index))"
  obtain rest where "x509_v_names = ''X509_V_OK'' # ''X509_V_ERR_UNSPECIFIED'' # rest"
    using x509_v_names_head by blast
  from init_x509_v_err_tab_two [OF this, of "header_text header_by_index"]
  obtain tl where t: "?tab =
      \<lparr>v_code = 0, v_value = ''0'', v_string = ''X509_V_OK''\<rparr>
      # \<lparr>v_code = 1, v_value = ''1'', v_string = ''X509_V_ERR_UNSPECIFIED''\<rparr>
      # tl"
    by (auto simp: header_text_def header_by_index_head decimal_0_1 atoi_0_1)
  have h: "1 < length ?tab" "v_code (?tab ! 1) \<noteq> -1"
    "v_string (?tab ! 1) = ''X509_V_ERR_UNSPECIFIED''"
    "v_code (?tab ! 1) = 1" "v_code (?tab ! 0) = 0"
    "x509_v_err_str_to_int ?tab ''X509_V_ERR_UNSPECIFIED'' = 1"
    by (simp_all add: t)
  from x509_v_err_round_trip [OF header_by_index_literals header_by_index_one, of ?tab]
  have all: "\<forall>i<length ?tab.
          v_code (?tab ! i) \<noteq> -1 \<longrightarrow>
          x509_v_err_int_to_str ?tab (x509_v_err_str_to_int ?tab (v_string (?tab ! i)))
            = Some (v_string (?tab ! i))"
    and null: "x509_v_err_int_to_str ?tab (-1) = None"
    by (simp_all add: Let_def)
  from all h(1,2)
  have "x509_v_err_int_to_str ?tab (x509_v_err_str_to_int ?tab (v_string (?tab ! 1)))
            = Some (v_string (?tab ! 1))"
    by blast
  then have "x509_v_err_int_to_str ?tab (x509_v_err_str_to_int ?tab ''X509_V_ERR_UNSPECIFIED'')
          = Some ''X509_V_ERR_UNSPECIFIED''"
    using h(3) by simp
  then show ?thesis using h null by simp
qed


section \<open>ASN.1 generalized time to epoch\<close>

text \<open>
  Claim C6 says that \<^verbatim>\<open>20230115123045Z\<close> maps to 1673785845, that \<^verbatim>\<open>20230115123045+0100\<close>
  maps to 3600 seconds less, and that the month 13 gives -1. The first and the last hold.
  For the offset the code computes \<^verbatim>\<open>(HH * 60 * 60 + MM) * 60\<close>, which is 216000 for
  \<^verbatim>\<open>+0100\<close>: the result is 1673569845, sixty hours before the \<^verbatim>\<open>Z\<close> value and not one.
\<close>

theorem asn1_generalizedtime_to_epoch_offset:
  "asn1_generalizedtime_to_epoch (Some (gentime ''20230115123045Z'')) = 1673785845 \<and>
   asn1_generalizedtime_to_epoch (Some (gentime ''20230115123045+0100'')) = 1673785845 - 216000 \<and>
   asn1_generalizedtime_to_epoch (Some (gentime ''20230115123045+0100'')) \<noteq> 1673785845 - 3600 \<and>
   asn1_generalizedtime_to_epoch (Some (gentime ''20230115123045-0100'')) = 1673785845 + 216000 \<and>
   asn1_generalizedtime_to_epoch (Some (gentime ''20231315000000Z'')) = -1"
  by (simp add: asn1_generalizedtime_to_epoch_def gentime_def bytes_of_def dgt_def
      epoch_of_month_def month_offset_def epoch_timezone_def V_ASN1_GENERALIZEDTIME_def)

end
